(* ===== verification/Prelude.thy ===== *)
theory Prelude
  imports Main "HOL-Library.Word" "HOL-Library.Sublist"
begin

unbundle bit_operations_syntax

text \<open>
  What every component of the gateway shares: names for Go's machine types, the outcome of
  a Go call (a value or a panic), the error values that cross package borders, and the parts
  of Go's standard library the sources call everywhere: little-endian integers
  (\<open>encoding/binary\<close>), \<open>strings.TrimSpace\<close>, decimal printing, and the growth of a slice
  under \<open>append\<close>. The lemmas are the generic facts the component theories rest on.
\<close>

section \<open>Machine types and outcomes\<close>

type_synonym byte = "8 word"
type_synonym bytes = "byte list"
type_synonym u16 = "16 word"
type_synonym u32 = "32 word"
type_synonym u64 = "64 word"

text \<open>A Go call returns a value or panics with a message.\<close>

datatype 'a go = Ret 'a | Panic string

primrec go_bind :: "'a go \<Rightarrow> ('a \<Rightarrow> 'b go) \<Rightarrow> 'b go" where
  "go_bind (Ret x) f = f x"
| "go_bind (Panic m) f = Panic m"

text \<open>
  The error values of the gateway's packages, and those of the standard library that the
  sources compare against or return unchanged.
\<close>

datatype goerr =
    ErrBadHeaderSize | ErrBadHeaderID
  | ErrAgentUIDDuplicated | ErrBadAgentUID
  | ErrServiceAPIReturn4xx | ErrServiceAPIReturn5xx
  | IoEOF | IoErrUnexpectedEOF | SysConnReset | NetClosed | NetTimeout
  | OtherErr string

named_theorems wire_simps
  \<comment> \<open>reading back what the little-endian writers produced, and lengths of encodings\<close>

named_theorems step_simps
  \<comment> \<open>unfolding of the operations that a step relation is made of\<close>

section \<open>Sequences of operations, and refinement\<close>

text \<open>\<open>go_fold\<close> runs an operation over a list of arguments and stops at the first panic.\<close>

fun go_fold :: "('op \<Rightarrow> 's \<Rightarrow> 's go) \<Rightarrow> 'op list \<Rightarrow> 's \<Rightarrow> 's go" where
  "go_fold f [] s = Ret s"
| "go_fold f (x # xs) s = go_bind (f x s) (go_fold f xs)"

text \<open>
  A component's contract: each concrete operation, on a state that represents an abstract
  one, returns (it does not panic) and represents the result of the abstract operation.
  Then the same holds for every sequence of operations.
\<close>

locale op_refinement =
  fixes rep :: "'a \<Rightarrow> 'c \<Rightarrow> bool"
    and aop :: "'op \<Rightarrow> 'a \<Rightarrow> 'a"
    and cop :: "'op \<Rightarrow> 'c \<Rightarrow> 'c go"
  assumes simulates: "rep a c \<Longrightarrow> \<exists>c'. cop x c = Ret c' \<and> rep (aop x a) c'"
begin

lemma run_refines:
  assumes "rep a c"
  shows "\<exists>c'. go_fold cop xs c = Ret c' \<and> rep (fold aop xs a) c'"
  using assms
proof (induction xs arbitrary: a c)
  case Nil
  then show ?case by simp
next
  case (Cons x xs)
  from simulates [OF Cons.prems, of x] obtain c' where "cop x c = Ret c'" "rep (aop x a) c'"
    by blast
  with Cons.IH [of "aop x a" c'] show ?case by auto
qed

end

section \<open>Little-endian integers\<close>

definition put_u16 :: "u16 \<Rightarrow> bytes" where
  "put_u16 w = [ucast w, ucast (drop_bit 8 w)]"

definition put_u32 :: "u32 \<Rightarrow> bytes" where
  "put_u32 w = [ucast w, ucast (drop_bit 8 w), ucast (drop_bit 16 w), ucast (drop_bit 24 w)]"

definition put_u64 :: "u64 \<Rightarrow> bytes" where
  "put_u64 w = [ucast w, ucast (drop_bit 8 w), ucast (drop_bit 16 w), ucast (drop_bit 24 w),
     ucast (drop_bit 32 w), ucast (drop_bit 40 w), ucast (drop_bit 48 w), ucast (drop_bit 56 w)]"

text \<open>
  The readers index a slice; Go panics on a short one. Every model that calls them checks
  the length first, as its source does (or models the panic).
\<close>

definition get_u16 :: "bytes \<Rightarrow> u16" where
  "get_u16 b = ucast (b ! 0) OR push_bit 8 (ucast (b ! 1))"

definition get_u32 :: "bytes \<Rightarrow> u32" where
  "get_u32 b = ucast (b ! 0) OR push_bit 8 (ucast (b ! 1)) OR push_bit 16 (ucast (b ! 2))
     OR push_bit 24 (ucast (b ! 3))"

definition get_u64 :: "bytes \<Rightarrow> u64" where
  "get_u64 b = ucast (b ! 0) OR push_bit 8 (ucast (b ! 1)) OR push_bit 16 (ucast (b ! 2))
     OR push_bit 24 (ucast (b ! 3)) OR push_bit 32 (ucast (b ! 4)) OR push_bit 40 (ucast (b ! 5))
     OR push_bit 48 (ucast (b ! 6)) OR push_bit 56 (ucast (b ! 7))"

lemma length_put [simp, wire_simps]:
  "length (put_u16 a) = 2" "length (put_u32 b) = 4" "length (put_u64 c) = 8"
  by (simp_all add: put_u16_def put_u32_def put_u64_def)

text \<open>
  Which byte of a little-endian word a bit lies in: the bit positions split into bytes.
\<close>

lemma byte_split: "n < 8 * Suc k \<Longrightarrow> n < 8 * k \<or> (\<exists>m < 8. n = 8 * k + (m::nat))"
  by presburger

lemma no_high_bit [simp]: "8 \<le> n \<Longrightarrow> \<not> bit (b :: byte) n"
  using bit_imp_le_length [of b n] by auto

lemma get_put_u16 [simp, wire_simps]: "get_u16 (put_u16 w @ r) = w"
proof (rule bit_word_eqI)
  fix n assume "n < LENGTH(16)"
  then consider "n < 8" | m where "m < 8" "n = m + 8"
    using byte_split [of n 1] by (auto simp: add.commute)
  then show "bit (get_u16 (put_u16 w @ r)) n = bit w n"
    by cases (simp_all add: get_u16_def put_u16_def bit_simps add.commute)
qed

lemma get_put_u32 [simp, wire_simps]: "get_u32 (put_u32 w @ r) = w"
proof (rule bit_word_eqI)
  fix n assume "n < LENGTH(32)"
  then consider "n < 8" | m where "m < 8" "n = m + 8" | m where "m < 8" "n = m + 16"
    | m where "m < 8" "n = m + 24"
    using byte_split [of n 3] byte_split [of n 2] byte_split [of n 1]
    by (auto simp: add.commute)
  then show "bit (get_u32 (put_u32 w @ r)) n = bit w n"
    by cases (simp_all add: get_u32_def put_u32_def bit_simps add.commute)
qed

lemma get_put_u64 [simp, wire_simps]: "get_u64 (put_u64 w @ r) = w"
proof (rule bit_word_eqI)
  fix n assume "n < LENGTH(64)"
  then consider "n < 8" | m where "m < 8" "n = m + 8" | m where "m < 8" "n = m + 16"
    | m where "m < 8" "n = m + 24" | m where "m < 8" "n = m + 32"
    | m where "m < 8" "n = m + 40" | m where "m < 8" "n = m + 48"
    | m where "m < 8" "n = m + 56"
    using byte_split [of n 7] byte_split [of n 6] byte_split [of n 5] byte_split [of n 4]
      byte_split [of n 3] byte_split [of n 2] byte_split [of n 1]
    by (auto simp: add.commute)
  then show "bit (get_u64 (put_u64 w @ r)) n = bit w n"
    by cases (simp_all add: get_u64_def put_u64_def bit_simps add.commute)
qed

lemma get_put_u16_nil [simp, wire_simps]: "get_u16 (put_u16 w) = w"
  using get_put_u16 [of w "[]"] by simp

lemma get_put_u32_nil [simp, wire_simps]: "get_u32 (put_u32 w) = w"
  using get_put_u32 [of w "[]"] by simp

lemma get_put_u64_nil [simp, wire_simps]: "get_u64 (put_u64 w) = w"
  using get_put_u64 [of w "[]"] by simp

lemma put_get_u16: "put_u16 (get_u16 [a, b]) = [a, b]"
  by (auto simp: get_u16_def put_u16_def bit_simps intro!: bit_word_eqI)

section \<open>Writing into a buffer\<close>

text \<open>
  \<open>splice off bs buf\<close> is \<open>copy(buf[off:], bs)\<close>, and \<open>PutUint\<close> into
  \<open>buf[off:off+n]\<close>, on a buffer that has room for all of \<open>bs\<close>.
\<close>

definition splice :: "nat \<Rightarrow> bytes \<Rightarrow> bytes \<Rightarrow> bytes" where
  "splice off bs buf = take off buf @ bs @ drop (off + length bs) buf"

lemma length_splice [simp]: "off + length bs \<le> length buf \<Longrightarrow> length (splice off bs buf) = length buf"
  by (simp add: splice_def)

lemma splice_at [simp]:
  "length p = off \<Longrightarrow> length q = length bs \<Longrightarrow> splice off bs (p @ q @ r) = p @ bs @ r"
  by (simp add: splice_def)

section \<open>Strings\<close>

text \<open>
  A Go string is a byte sequence; here a \<open>string\<close>, whose characters are bytes.
  \<open>strings.TrimSpace\<close> drops Unicode white space at both ends; the white space characters
  are listed by their UTF-8 encodings (no one of them is a prefix or a suffix of a longer
  valid encoding, so matching encodings is matching runes).
\<close>

definition space_seqs :: "string list" where
  "space_seqs =
     [[CHR 0x09], [CHR 0x0A], [CHR 0x0B], [CHR 0x0C], [CHR 0x0D], [CHR 0x20],
      [CHR 0xC2, CHR 0x85], [CHR 0xC2, CHR 0xA0], [CHR 0xE1, CHR 0x9A, CHR 0x80],
      [CHR 0xE2, CHR 0x80, CHR 0x80], [CHR 0xE2, CHR 0x80, CHR 0x81],
      [CHR 0xE2, CHR 0x80, CHR 0x82], [CHR 0xE2, CHR 0x80, CHR 0x83],
      [CHR 0xE2, CHR 0x80, CHR 0x84], [CHR 0xE2, CHR 0x80, CHR 0x85],
      [CHR 0xE2, CHR 0x80, CHR 0x86], [CHR 0xE2, CHR 0x80, CHR 0x87],
      [CHR 0xE2, CHR 0x80, CHR 0x88], [CHR 0xE2, CHR 0x80, CHR 0x89],
      [CHR 0xE2, CHR 0x80, CHR 0x8A], [CHR 0xE2, CHR 0x80, CHR 0xA8],
      [CHR 0xE2, CHR 0x80, CHR 0xA9], [CHR 0xE2, CHR 0x80, CHR 0xAF],
      [CHR 0xE2, CHR 0x81, CHR 0x9F], [CHR 0xE3, CHR 0x80, CHR 0x80]]"

definition match_seq :: "string list \<Rightarrow> string \<Rightarrow> string option" where
  "match_seq ps s = find (\<lambda>p. p \<noteq> [] \<and> prefix p s) ps"

lemma match_seq_Some: "match_seq ps s = Some p \<Longrightarrow> p \<noteq> [] \<and> prefix p s \<and> p \<in> set ps"
  by (auto simp: match_seq_def find_Some_iff)

lemma match_seq_None: "match_seq ps s = None \<longleftrightarrow> (\<forall>p \<in> set ps. p \<noteq> [] \<longrightarrow> \<not> prefix p s)"
  by (auto simp: match_seq_def find_None_iff)

function drop_seqs :: "string list \<Rightarrow> string \<Rightarrow> string" where
  "drop_seqs ps s =
     (case match_seq ps s of None \<Rightarrow> s | Some p \<Rightarrow> drop_seqs ps (drop (length p) s))"
  by pat_completeness auto
termination
  by (relation "measure (\<lambda>(ps, s). length s)")
    (auto dest!: match_seq_Some simp: prefix_def)

declare drop_seqs.simps [simp del]

definition trim_space :: "string \<Rightarrow> string" where
  "trim_space s = rev (drop_seqs (map rev space_seqs) (rev (drop_seqs space_seqs s)))"

lemma drop_seqs_clean: "match_seq ps (drop_seqs ps s) = None"
proof (induction ps s rule: drop_seqs.induct)
  case (1 ps s)
  then show ?case by (subst drop_seqs.simps) (auto split: option.splits)
qed

lemma drop_seqs_stop: "match_seq ps s = None \<Longrightarrow> drop_seqs ps s = s"
  by (subst drop_seqs.simps) simp

lemma drop_seqs_suffix: "suffix (drop_seqs ps s) s"
proof (induction ps s rule: drop_seqs.induct)
  case (1 ps s)
  show ?case
  proof (cases "match_seq ps s")
    case None
    then show ?thesis by (simp add: drop_seqs_stop)
  next
    case (Some p)
    with 1 have "suffix (drop_seqs ps (drop (length p) s)) (drop (length p) s)" by simp
    then have "suffix (drop_seqs ps (drop (length p) s)) s"
      using suffix_drop suffix_order.trans by blast
    then show ?thesis using Some by (subst drop_seqs.simps) simp
  qed
qed

lemma match_seq_prefix: "match_seq ps s = None \<Longrightarrow> prefix t s \<Longrightarrow> match_seq ps t = None"
  by (meson match_seq_None prefix_order.trans)

lemma trim_space_idem: "trim_space (trim_space s) = trim_space s"
proof -
  let ?r = "rev (drop_seqs space_seqs s)"
  have "suffix (drop_seqs (map rev space_seqs) ?r) ?r" by (rule drop_seqs_suffix)
  then have "prefix (trim_space s) (drop_seqs space_seqs s)"
    by (simp add: trim_space_def suffix_to_prefix)
  then have "match_seq space_seqs (trim_space s) = None"
    by (rule match_seq_prefix [OF drop_seqs_clean])
  then show ?thesis
    by (simp add: trim_space_def drop_seqs_stop drop_seqs_clean)
qed

text \<open>A string that starts and ends with bytes no white space starts or ends with is kept.\<close>

lemma match_seq_hd: "s \<noteq> [] \<Longrightarrow> hd s \<notin> hd ` set ps \<Longrightarrow> match_seq ps s = None"
  by (force simp: match_seq_None prefix_def)

lemma trim_space_id:
  assumes "s \<noteq> []" and "hd s \<notin> hd ` set space_seqs" and "last s \<notin> last ` set space_seqs"
  shows "trim_space s = s"
proof -
  have "hd (rev s) \<notin> hd ` set (map rev space_seqs)"
    using assms(1,3) by (auto simp: hd_rev)
  then have "match_seq (map rev space_seqs) (rev s) = None"
    using assms(1) by (intro match_seq_hd) auto
  moreover have "match_seq space_seqs s = None"
    using assms(1,2) by (rule match_seq_hd)
  ultimately show ?thesis by (simp add: trim_space_def drop_seqs_stop)
qed

lemma space_seq_ends:
  "hd ` set space_seqs = {CHR 0x09, CHR 0x0A, CHR 0x0B, CHR 0x0C, CHR 0x0D, CHR 0x20,
     CHR 0xC2, CHR 0xE1, CHR 0xE2, CHR 0xE3}"
  "last ` set space_seqs \<subseteq> {CHR 0x09, CHR 0x0A, CHR 0x0B, CHR 0x0C, CHR 0x0D, CHR 0x20} \<union>
     {c. 128 \<le> (of_char c :: nat)}"
  by (auto simp: space_seqs_def)

section \<open>Decimal printing\<close>

definition digit :: "nat \<Rightarrow> char" where
  "digit d = char_of (48 + d)"

fun dec :: "nat \<Rightarrow> string" where
  "dec n = (if n < 10 then [digit n] else dec (n div 10) @ [digit (n mod 10)])"

declare dec.simps [simp del]

definition dec_int :: "int \<Rightarrow> string" where
  "dec_int i = (if i < 0 then CHR ''-'' # dec (nat (- i)) else dec (nat i))"

definition undec :: "string \<Rightarrow> nat" where
  "undec s = foldl (\<lambda>n c. 10 * n + (of_char c - 48)) 0 s"

lemma of_char_digit: "d < 10 \<Longrightarrow> of_char (digit d) = (48 + d :: nat)"
  by (simp add: digit_def)

lemma undec_dec: "undec (dec n) = n"
proof (induction n rule: dec.induct)
  case (1 n)
  then show ?case
    by (subst dec.simps) (auto simp: undec_def of_char_digit)
qed

lemma dec_inj [simp]: "dec m = dec n \<longleftrightarrow> m = n"
  by (metis undec_dec)

lemma dec_chars: "c \<in> set (dec n) \<Longrightarrow> \<exists>d < 10. c = digit d"
proof (induction n rule: dec.induct)
  case (1 n)
  then show ?case
    by (subst (asm) dec.simps)
      (auto split: if_splits intro: exI [of "\<lambda>d. d < 10 \<and> digit (n mod 10) = digit d" "n mod 10"])
qed

lemma dec_nonempty [simp]: "dec n \<noteq> []"
  by (subst dec.simps) simp

lemma digit_range: "d < 10 \<Longrightarrow> 48 \<le> (of_char (digit d) :: nat) \<and> (of_char (digit d) :: nat) < 58"
  by (simp add: of_char_digit)

section \<open>Growth of a slice under append\<close>

text \<open>
  Go leaves open how much larger the array is that \<open>append\<close> allocates when the old one is
  full; it promises that the elements fit. The promise is an interface: whatever rests on
  it holds for every growth policy. The runtime's own policy (before it rounds up to a size
  class) is shown to keep it.
\<close>

locale append_policy =
  fixes grow :: "nat \<Rightarrow> nat \<Rightarrow> nat"
  assumes grow_enough: "need \<le> grow cap need"

definition append_cap :: "(nat \<Rightarrow> nat \<Rightarrow> nat) \<Rightarrow> nat \<Rightarrow> nat \<Rightarrow> nat" where
  "append_cap grow cap need = (if need \<le> cap then cap else grow cap need)"

context append_policy
begin

lemma append_cap_enough: "need \<le> append_cap grow cap need"
  by (simp add: append_cap_def grow_enough)

end

function grow_quarter :: "nat \<Rightarrow> nat \<Rightarrow> nat" where
  "grow_quarter need c =
     (let c' = c + (c + 768) div 4 in if need \<le> c' then c' else grow_quarter need c')"
  by pat_completeness auto
termination
  by (relation "measure (\<lambda>(need, c). need - c)") auto

declare grow_quarter.simps [simp del]

definition next_slice_cap :: "nat \<Rightarrow> nat \<Rightarrow> nat" where
  "next_slice_cap cap need =
     (if 2 * cap < need then need
      else if cap < 256 then 2 * cap
      else grow_quarter need cap)"

lemma grow_quarter_enough: "need \<le> grow_quarter need c"
proof (induction need c rule: grow_quarter.induct)
  case (1 need c)
  then show ?case by (subst grow_quarter.simps) (simp add: Let_def)
qed

interpretation go_append: append_policy next_slice_cap
  by unfold_locales (simp add: next_slice_cap_def grow_quarter_enough)

end
