(* ===== verification/Registry.thy ===== *)
theory Registry
  imports Prelude "HOL-Library.AList"
begin

text \<open>
  The table of connected agents of \<open>src/pkg/gateway/gateway.go\<close> and its operations:
  \<open>GenerateAgentUID\<close>, \<open>AddAgent\<close>, \<open>RemoveAgent\<close>, \<open>GetAgent\<close>, \<open>GetAgents\<close> and the
  table's part of \<open>Close\<close>. Agents are referred to by handles of a type \<open>'a\<close>. Each operation
  holds the gateway's lock for its whole critical section, so it is one step.
\<close>

section \<open>State\<close>

text \<open>
  The Go map is an association list with distinct keys; \<open>None\<close> is the nil map that
  \<open>Close\<close> leaves behind: it can be read and deleted from, and writing to it panics.
\<close>

record 'a gateway =
  gw_agents :: "(string \<times> 'a) list option"
  gw_uidBase :: u64

definition gateway_New :: "'a gateway" where
  "gateway_New = \<lparr>gw_agents = Some [], gw_uidBase = 0\<rparr>"

definition entries :: "'a gateway \<Rightarrow> (string \<times> 'a) list" where
  "entries gw = (case gw_agents gw of None \<Rightarrow> [] | Some m \<Rightarrow> m)"

section \<open>Operations\<close>

text \<open>
  A client's identifier: a counter, the time in nanoseconds, and a random number below
  9999999. The counter is set back by a compare-and-swap near its end.
\<close>

definition uidLimit :: u64 where "uidLimit = - 1 - 1000"

definition GenerateAgentUID :: "int \<Rightarrow> nat \<Rightarrow> 'a gateway \<Rightarrow> string \<times> 'a gateway" where
  "GenerateAgentUID now randomID gw =
     (let base = (if gw_uidBase gw = uidLimit then 0 else gw_uidBase gw);
          uid = base + 1
      in (dec (unat uid) @ ''_'' @ dec_int now @ ''_'' @ dec randomID, gw\<lparr>gw_uidBase := uid\<rparr>))"

definition AddAgent :: "string \<Rightarrow> 'a \<Rightarrow> 'a gateway \<Rightarrow> goerr option go \<times> 'a gateway" where
  "AddAgent i agent gw =
     (let i = trim_space i
      in if i = '''' then (Ret (Some ErrBadAgentUID), gw)
         else if map_of (entries gw) i \<noteq> None then (Ret (Some ErrAgentUIDDuplicated), gw)
         else (case gw_agents gw of
                 None \<Rightarrow> (Panic ''assignment to entry in nil map'', gw)
               | Some m \<Rightarrow> (Ret None, gw\<lparr>gw_agents := Some (AList.update i agent m)\<rparr>)))"

definition RemoveAgent :: "string \<Rightarrow> 'a gateway \<Rightarrow> 'a option \<times> 'a gateway" where
  "RemoveAgent i gw =
     (if trim_space i = '''' then (None, gw)
      else case map_of (entries gw) i of
             None \<Rightarrow> (None, gw)
           | Some agent \<Rightarrow> (Some agent, gw\<lparr>gw_agents := map_option (AList.delete i) (gw_agents gw)\<rparr>))"

definition GetAgent :: "string \<Rightarrow> 'a gateway \<Rightarrow> 'a option" where
  "GetAgent i gw = (if trim_space i = '''' then None else map_of (entries gw) i)"

definition GetAgents :: "'a gateway \<Rightarrow> (string \<times> 'a) list" where
  "GetAgents gw = foldl (\<lambda>ret (i, agent). AList.update i agent ret) [] (entries gw)"

text \<open>\<open>Close\<close>: the agents to be closed, and the table set to nil.\<close>

definition gateway_Close :: "'a gateway \<Rightarrow> 'a list \<times> 'a gateway" where
  "gateway_Close gw = (map snd (entries gw), gw\<lparr>gw_agents := None\<rparr>)"

section \<open>The contract\<close>

text \<open>
  What the accept loop, the finalizers and the HTTP handlers rely on: over the keys they
  use, the table is a finite map, and adding a taken key is refused and changes nothing.
\<close>

locale agent_table =
  fixes look :: "string \<Rightarrow> 'g \<Rightarrow> 'a option"
    and add :: "string \<Rightarrow> 'a \<Rightarrow> 'g \<Rightarrow> goerr option go \<times> 'g"
    and del :: "string \<Rightarrow> 'g \<Rightarrow> 'a option \<times> 'g"
    and usable :: "'g \<Rightarrow> bool"
    and key :: "string \<Rightarrow> bool"
  assumes add_fresh: "usable g \<Longrightarrow> key k \<Longrightarrow> look k g = None \<Longrightarrow>
      \<exists>g'. add k v g = (Ret None, g') \<and> usable g' \<and> (\<forall>j. key j \<longrightarrow> look j g' = (if j = k then Some v else look j g))"
    and add_taken: "usable g \<Longrightarrow> key k \<Longrightarrow> look k g = Some w \<Longrightarrow> \<exists>e. add k v g = (Ret (Some e), g)"
    and del_key: "usable g \<Longrightarrow> key k \<Longrightarrow>
      \<exists>g'. del k g = (look k g, g') \<and> usable g' \<and> (\<forall>j. key j \<longrightarrow> look j g' = (if j = k then None else look j g))"

datatype 'a table_op = Enter string 'a | Leave string

fun table_aop :: "'a table_op \<Rightarrow> (string \<rightharpoonup> 'a) \<Rightarrow> (string \<rightharpoonup> 'a)" where
  "table_aop (Enter k v) m = (if m k = None then m(k \<mapsto> v) else m)"
| "table_aop (Leave k) m = m(k := None)"

fun table_cop ::
  "(string \<Rightarrow> 'a \<Rightarrow> 'g \<Rightarrow> goerr option go \<times> 'g) \<Rightarrow> (string \<Rightarrow> 'g \<Rightarrow> 'a option \<times> 'g) \<Rightarrow>
     'a table_op \<Rightarrow> 'g \<Rightarrow> 'g go"
where
  "table_cop add del (Enter k v) g =
     (case add k v g of (Ret _, g) \<Rightarrow> Ret g | (Panic p, g) \<Rightarrow> Panic p)"
| "table_cop add del (Leave k) g = Ret (snd (del k g))"

fun table_key :: "'a table_op \<Rightarrow> string" where
  "table_key (Enter k v) = k"
| "table_key (Leave k) = k"

text \<open>Operations on keys that are not used are left out of a run.\<close>

definition table_step ::
  "(string \<Rightarrow> bool) \<Rightarrow> ('a table_op \<Rightarrow> 's \<Rightarrow> 's) \<Rightarrow> 'a table_op \<Rightarrow> 's \<Rightarrow> 's" where
  "table_step key f x s = (if key (table_key x) then f x s else s)"

definition table_run ::
  "(string \<Rightarrow> bool) \<Rightarrow> ('a table_op \<Rightarrow> 's \<Rightarrow> 's go) \<Rightarrow> 'a table_op \<Rightarrow> 's \<Rightarrow> 's go" where
  "table_run key f x s = (if key (table_key x) then f x s else Ret s)"

definition table_rep ::
  "(string \<Rightarrow> 'g \<Rightarrow> 'a option) \<Rightarrow> ('g \<Rightarrow> bool) \<Rightarrow> (string \<Rightarrow> bool) \<Rightarrow> (string \<rightharpoonup> 'a) \<Rightarrow> 'g \<Rightarrow> bool" where
  "table_rep look usable key m g \<longleftrightarrow> usable g \<and> (\<forall>k. key k \<longrightarrow> look k g = m k)"

sublocale agent_table \<subseteq> tab: op_refinement "table_rep look usable key"
  "table_step key table_aop" "table_run key (table_cop add del)"
proof
  fix m g and x :: "'a table_op"
  assume rep: "table_rep look usable key m g"
  show "\<exists>g'. table_run key (table_cop add del) x g = Ret g' \<and>
      table_rep look usable key (table_step key table_aop x m) g'"
  proof (cases "key (table_key x)")
    case False
    with rep show ?thesis by (simp add: table_run_def table_step_def)
  next
    case key: True
    show ?thesis
    proof (cases x)
      case (Enter k v)
      show ?thesis
      proof (cases "look k g")
        case None
        with key Enter rep add_fresh [of g k v] show ?thesis
          by (auto simp: table_run_def table_step_def table_rep_def)
      next
        case (Some w)
        with key Enter rep add_taken [of g k w v] show ?thesis
          by (auto simp: table_run_def table_step_def table_rep_def)
      qed
    next
      case (Leave k)
      with key rep del_key [of g k] show ?thesis
        by (auto simp: table_run_def table_step_def table_rep_def)
    qed
  qed
qed

section \<open>The gateway's table keeps the contract\<close>

definition good_key :: "string \<Rightarrow> bool" where
  "good_key k \<longleftrightarrow> k \<noteq> '''' \<and> trim_space k = k"

definition table_open :: "'a gateway \<Rightarrow> bool" where
  "table_open gw \<longleftrightarrow> (\<exists>m. gw_agents gw = Some m \<and> distinct (map fst m))"

lemma GetAgent_good: "good_key k \<Longrightarrow> GetAgent k gw = map_of (entries gw) k"
  by (simp add: GetAgent_def good_key_def)

lemma map_of_delete: "map_of (AList.delete k m) j = (if j = k then None else map_of m j)"
  by (simp add: delete_conv')

interpretation reg: agent_table GetAgent AddAgent RemoveAgent table_open good_key
proof
  fix g :: "'a gateway" and k and v :: 'a
  assume open1: "table_open g" and k: "good_key k" and free: "GetAgent k g = None"
  then obtain m where m: "gw_agents g = Some m" "distinct (map fst m)"
    by (auto simp: table_open_def)
  have "AddAgent k v g = (Ret None, g\<lparr>gw_agents := Some (AList.update k v m)\<rparr>)"
    using k free m by (simp add: AddAgent_def GetAgent_good good_key_def entries_def)
  moreover have "table_open (g\<lparr>gw_agents := Some (AList.update k v m)\<rparr>)"
    using m by (simp add: table_open_def distinct_update)
  ultimately show "\<exists>g'. AddAgent k v g = (Ret None, g') \<and> table_open g' \<and>
      (\<forall>j. good_key j \<longrightarrow> GetAgent j g' = (if j = k then Some v else GetAgent j g))"
    using m by (auto simp: GetAgent_good entries_def update_conv')
next
  fix g :: "'a gateway" and k and v w :: 'a
  assume "table_open g" "good_key k" "GetAgent k g = Some w"
  then show "\<exists>e. AddAgent k v g = (Ret (Some e), g)"
    by (simp add: AddAgent_def GetAgent_good) (simp add: good_key_def)
next
  fix g :: "'a gateway" and k
  assume "table_open g" and k: "good_key k"
  then obtain m where m: "gw_agents g = Some m" "distinct (map fst m)"
    by (auto simp: table_open_def)
  show "\<exists>g'. RemoveAgent k g = (GetAgent k g, g') \<and> table_open g' \<and>
      (\<forall>j. good_key j \<longrightarrow> GetAgent j g' = (if j = k then None else GetAgent j g))"
  proof (cases "map_of m k")
    case None
    with k m show ?thesis
      by (intro exI [of _ g]) (auto simp: RemoveAgent_def GetAgent_def good_key_def entries_def table_open_def)
  next
    case (Some a)
    with k m show ?thesis
      by (intro exI [of _ "g\<lparr>gw_agents := Some (AList.delete k m)\<rparr>"])
        (auto simp: RemoveAgent_def GetAgent_def good_key_def entries_def table_open_def
          map_of_delete distinct_delete)
  qed
qed

lemma table_open_New: "table_open gateway_New"
  by (simp add: table_open_def gateway_New_def)

section \<open>Identifiers\<close>

lemma underscore_not_dec: "CHR ''_'' \<notin> set (dec n)"
proof
  assume "CHR ''_'' \<in> set (dec n)"
  then obtain d where "d < 10" "CHR ''_'' = digit d" using dec_chars by blast
  moreover have "of_char (CHR ''_'') = (95 :: nat)" by simp
  ultimately show False using digit_range [of d] by simp
qed

lemma uid_counter:
  assumes "dec a @ CHR ''_'' # r = dec b @ CHR ''_'' # s"
  shows "a = b"
proof -
  have stop: "takeWhile (\<lambda>c. c \<noteq> CHR ''_'') (dec n @ CHR ''_'' # t) = dec n" for n t
    using underscore_not_dec [of n] by (subst takeWhile_append2) auto
  have "dec a = dec b" using arg_cong [OF assms, of "takeWhile (\<lambda>c. c \<noteq> CHR ''_'')"]
    by (simp only: stop)
  then show ?thesis by simp
qed

lemma digit_no_space:
  assumes "d < 10"
  shows "digit d \<notin> hd ` set space_seqs" and "digit d \<notin> last ` set space_seqs"
proof -
  have r: "48 \<le> (of_char (digit d) :: nat)" "(of_char (digit d) :: nat) < 58"
    using digit_range [OF assms] by auto
  show "digit d \<notin> hd ` set space_seqs"
    unfolding space_seq_ends(1) using r by auto
  show "digit d \<notin> last ` set space_seqs"
    using space_seq_ends(2) r by (auto dest!: subsetD [OF space_seq_ends(2)])
qed

lemma uid_good: "good_key (dec a @ ''_'' @ dec_int now @ ''_'' @ dec r)"
proof -
  let ?u = "dec a @ ''_'' @ dec_int now @ ''_'' @ dec r"
  obtain d where "d < 10" "hd ?u = digit d"
    using dec_chars [of "hd (dec a)" a] by auto
  moreover obtain d' where "d' < 10" "last ?u = digit d'"
    using dec_chars [of "last (dec r)" r] by auto
  ultimately have "trim_space ?u = ?u"
    using digit_no_space [of d] digit_no_space [of d'] by (intro trim_space_id) auto
  then show ?thesis by (simp add: good_key_def)
qed

lemma GenerateAgentUID_good: "good_key (fst (GenerateAgentUID now rnd gw))"
  using uid_good by (simp add: GenerateAgentUID_def Let_def)

lemma GenerateAgentUID_agents [simp]:
  "gw_agents (snd (GenerateAgentUID now rnd gw)) = gw_agents gw"
  by (simp add: GenerateAgentUID_def Let_def)

fun gen_uids :: "(int \<times> nat) list \<Rightarrow> 'a gateway \<Rightarrow> string list" where
  "gen_uids [] gw = []"
| "gen_uids ((now, rnd) # seeds) gw =
     (case GenerateAgentUID now rnd gw of (u, gw) \<Rightarrow> u # gen_uids seeds gw)"

lemma unat_uidLimit: "unat uidLimit = 2 ^ 64 - 1001"
  by (simp add: uidLimit_def)

lemma GenerateAgentUID_next:
  assumes "unat (gw_uidBase gw) < 2 ^ 64 - 1001"
  shows "unat (gw_uidBase (snd (GenerateAgentUID now rnd gw))) = Suc (unat (gw_uidBase gw))"
    and "fst (GenerateAgentUID now rnd gw) =
      dec (Suc (unat (gw_uidBase gw))) @ ''_'' @ dec_int now @ ''_'' @ dec rnd"
proof -
  have "gw_uidBase gw \<noteq> uidLimit" using assms unat_uidLimit by auto
  moreover from assms have "unat (gw_uidBase gw + 1) = Suc (unat (gw_uidBase gw))"
    by (simp add: unat_word_ariths)
  ultimately show "unat (gw_uidBase (snd (GenerateAgentUID now rnd gw))) = Suc (unat (gw_uidBase gw))"
    and "fst (GenerateAgentUID now rnd gw) =
      dec (Suc (unat (gw_uidBase gw))) @ ''_'' @ dec_int now @ ''_'' @ dec rnd"
    by (simp_all add: GenerateAgentUID_def Let_def)
qed

lemma gen_uids_counters:
  assumes "unat (gw_uidBase gw) + length seeds \<le> 2 ^ 64 - 1001"
  shows "\<exists>tails. length tails = length seeds \<and>
    gen_uids seeds gw = map2 (\<lambda>k t. dec k @ ''_'' @ t)
      [Suc (unat (gw_uidBase gw))..<Suc (unat (gw_uidBase gw) + length seeds)] tails"
  using assms
proof (induction seeds arbitrary: gw)
  case Nil
  then show ?case by simp
next
  case (Cons s seeds)
  obtain now rnd where s: "s = (now, rnd)" by fastforce
  define b where "b = unat (gw_uidBase gw)"
  let ?g = "snd (GenerateAgentUID now rnd gw)"
  have lt: "unat (gw_uidBase gw) < 2 ^ 64 - 1001" using Cons.prems by simp
  note nxt = GenerateAgentUID_next [OF lt, of now rnd, folded b_def]
  have "unat (gw_uidBase ?g) + length seeds \<le> 2 ^ 64 - 1001"
    using Cons.prems nxt(1) by (simp add: b_def)
  from Cons.IH [OF this] obtain tails where "length tails = length seeds"
    "gen_uids seeds ?g = map2 (\<lambda>k t. dec k @ ''_'' @ t) [Suc (Suc b)..<Suc (Suc b + length seeds)] tails"
    by (auto simp: nxt(1))
  moreover have "gen_uids (s # seeds) gw = fst (GenerateAgentUID now rnd gw) # gen_uids seeds ?g"
    by (simp add: s case_prod_beta)
  moreover have "[Suc b..<Suc (b + length (s # seeds))] = Suc b # [Suc (Suc b)..<Suc (Suc b + length seeds)]"
    using upt_conv_Cons [of "Suc b" "Suc (b + length (s # seeds))"] by (simp del: upt_Suc)
  ultimately show ?case
    by (intro exI [of _ "(dec_int now @ ''_'' @ dec rnd) # tails"]) (simp add: nxt(2) del: upt_Suc flip: b_def)
qed

section \<open>Properties\<close>

text \<open>C18: the identifiers given to clients since the start of the process are pairwise
  different, whatever the clock and the random numbers are, up to the reset of the counter;
  and each of them is stored under itself (trimming does not change it).\<close>

theorem uids_distinct:
  assumes "gw_uidBase gw = 0" and "length seeds \<le> 2 ^ 64 - 1001"
  shows "distinct (gen_uids seeds gw) \<and> (\<forall>u \<in> set (gen_uids seeds gw). good_key u)"
proof -
  obtain tails where t: "length tails = length seeds"
    "gen_uids seeds gw = map2 (\<lambda>k t. dec k @ ''_'' @ t) [1..<Suc (length seeds)] tails"
    using gen_uids_counters [of gw seeds] assms by auto
  have "distinct (gen_uids seeds gw)"
    unfolding distinct_conv_nth t(2)
    using t(1) by (auto simp: nth_zip dest: uid_counter simp del: upt_Suc)
  moreover have "u \<in> set (gen_uids seeds g) \<Longrightarrow> good_key u" for u and g :: "'a gateway"
    by (induction seeds arbitrary: g)
      (auto simp: case_prod_beta GenerateAgentUID_good)
  ultimately show ?thesis by blast
qed

theorem uids_distinct_witness:
  "distinct (gen_uids [(5, 7), (5, 7)] (gateway_New :: nat gateway))"
  using uids_distinct [of "gateway_New :: nat gateway" "[(5, 7), (5, 7)]"]
  by (simp add: gateway_New_def)



text \<open>An identifier with white space around it is stored under its trimmed form but looked
  up and removed as it is: the agent just added is not found and cannot be removed.\<close>

lemma untrimmed_lookup:
  assumes "table_open gw" and "trim_space i \<noteq> i" and "trim_space i \<noteq> ''''"
    and "GetAgent (trim_space i) gw = None" and "GetAgent i gw = None"
  shows "\<exists>gw'. AddAgent i v gw = (Ret None, gw') \<and> GetAgent (trim_space i) gw' = Some v \<and>
    GetAgent i gw' = None \<and> RemoveAgent i gw' = (None, gw')"
proof -
  obtain m where m: "gw_agents gw = Some m" using assms(1) by (auto simp: table_open_def)
  have none: "map_of m (trim_space i) = None" "map_of m i = None"
    using assms(3-5) m by (simp_all add: GetAgent_def trim_space_idem entries_def)
  let ?g = "gw\<lparr>gw_agents := Some (AList.update (trim_space i) v m)\<rparr>"
  have "AddAgent i v gw = (Ret None, ?g)"
    using assms(3) m none by (simp add: AddAgent_def entries_def)
  then show ?thesis
    using assms(2,3) none by (auto simp: GetAgent_def RemoveAgent_def entries_def trim_space_idem update_conv')
qed

lemma untrimmed_lookup_witness:
  "\<exists>gw'. AddAgent '' a'' (3 :: nat) gateway_New = (Ret None, gw') \<and> GetAgent ''a'' gw' = Some 3 \<and>
     GetAgent '' a'' gw' = None \<and> RemoveAgent '' a'' gw' = (None, gw')"
proof -
  have t: "trim_space '' a'' = ''a''" by code_simp
  have "trim_space '' a'' \<noteq> '' a''" "trim_space '' a'' \<noteq> ''''"
    and "GetAgent (trim_space '' a'') (gateway_New :: nat gateway) = None"
    and "GetAgent '' a'' (gateway_New :: nat gateway) = None"
    by (simp_all add: t GetAgent_def entries_def gateway_New_def)
  from untrimmed_lookup [OF table_open_New this, of 3] show ?thesis by (simp only: t)
qed

text \<open>After \<open>Close\<close> every agent that was registered has been handed over for closing, no
  identifier is found any more, removing is harmless, but adding panics.\<close>

lemma closed_table:
  assumes "gateway_Close gw = (closed, gw')"
  shows "(\<forall>k a. GetAgent k gw = Some a \<longrightarrow> a \<in> set closed) \<and> GetAgent k gw' = None \<and>
    RemoveAgent k gw' = (None, gw') \<and>
    (trim_space k \<noteq> '''' \<longrightarrow> AddAgent k v gw' = (Panic ''assignment to entry in nil map'', gw'))"
  using assms
  by (force simp: gateway_Close_def GetAgent_def RemoveAgent_def AddAgent_def entries_def Let_def
      dest: map_of_SomeD split: if_splits)

lemma closed_table_witness:
  "\<exists>gw'. gateway_Close (\<lparr>gw_agents = Some [(''a'', 3 :: nat)], gw_uidBase = 1\<rparr>) = ([3], gw') \<and>
     GetAgent ''a'' gw' = None"
proof -
  obtain gw' where c: "gateway_Close (\<lparr>gw_agents = Some [(''a'', 3 :: nat)], gw_uidBase = 1\<rparr>) = ([3], gw')"
    by (simp add: gateway_Close_def entries_def)
  from closed_table [OF c] c show ?thesis by blast
qed

end
