(* ===== verification/Hooks.thy ===== *)
theory Hooks
  imports Prelude
begin

text \<open>
  The header and body hooks of \<open>src/pkg/hot/hooks/hooks.go\<close>: the checks a frame passes
  before its body is read and before it is forwarded.
\<close>

definition minID :: u16 where "minID = 1000"
definition maxID :: u16 where "maxID = 60000"
definition minSize :: u32 where "minSize = 10"
definition maxSize :: u32 where "maxSize = 1024 * 1024 * 1"

text \<open>
  A nil slice passes. The slice expressions panic on a header shorter than ten bytes (the
  slices handed to the hook have no spare capacity). The checksum is read and dropped.
\<close>

definition hookHeader :: "bytes option \<Rightarrow> goerr option go" where
  "hookHeader header =
     (case header of
        None \<Rightarrow> Ret None
      | Some h \<Rightarrow>
          if length h < 10 then Panic ''slice bounds out of range''
          else
            (let i = get_u16 (take 2 h);
                 sz = get_u32 (take 4 (drop 2 h));
                 crc = get_u32 (take 4 (drop 6 h))
             in if i < minID \<or> maxID < i then Ret (Some ErrBadHeaderID)
                else if sz < minSize \<or> maxSize < sz then Ret (Some ErrBadHeaderSize)
                else Ret None))"

definition hookBody :: "bytes option \<Rightarrow> bytes option \<Rightarrow> goerr option" where
  "hookBody header body = None"

text \<open>What the header hook lets through.\<close>

definition header_ok :: "u16 \<Rightarrow> u32 \<Rightarrow> bool" where
  "header_ok i sz \<longleftrightarrow> minID \<le> i \<and> i \<le> maxID \<and> minSize \<le> sz \<and> sz \<le> maxSize"

definition header_err :: "u16 \<Rightarrow> u32 \<Rightarrow> goerr" where
  "header_err i sz = (if minID \<le> i \<and> i \<le> maxID then ErrBadHeaderSize else ErrBadHeaderID)"

lemma hookHeader_eq:
  "10 \<le> length h \<Longrightarrow>
     hookHeader (Some h) =
       (let i = get_u16 (take 2 h); sz = get_u32 (take 4 (drop 2 h))
        in if header_ok i sz then Ret None else Ret (Some (header_err i sz)))"
  by (auto simp: hookHeader_def header_ok_def header_err_def Let_def not_less)

lemma header_ok_size: "header_ok i sz \<Longrightarrow> 10 \<le> unat sz \<and> unat sz \<le> 1048576"
  by (simp add: header_ok_def minSize_def maxSize_def word_le_nat_alt)

lemma header_ok_body_size: "header_ok i sz \<Longrightarrow> unat (sz - 10) = unat sz - 10"
  by (simp add: header_ok_def minSize_def unat_sub word_le_nat_alt)

end
