(* ===== verification/Writer.thy ===== *)
theory Writer
  imports Prelude
begin

text \<open>
  The outgoing side of a connection, \<open>src/pkg/writer/writer.go\<close>: message framing, the
  buffer that frames are appended to (\<open>Write\<close>), its hand-over to the write loop
  (\<open>Pop\<close>), and the write to the socket (\<open>Flush\<close>). The \<open>io.Writer\<close> it writes to is an
  interface here too: the state \<open>'k\<close> of the sink and its \<open>Write\<close> are parameters.
\<close>

section \<open>State\<close>

text \<open>
  \<open>w_cap\<close> is \<open>cap(w.b)\<close>. The mutex has no counterpart: each operation is one atomic
  step, as its critical section is.
\<close>

record 'k writer =
  w_w :: 'k
  w_b :: bytes
  w_cap :: nat
  w_err :: "goerr option"

definition writer_New :: "'k \<Rightarrow> 'k writer" where
  "writer_New wr = \<lparr>w_w = wr, w_b = [], w_cap = 0, w_err = None\<rparr>"

section \<open>Write: frame a message and append it\<close>

definition frame_buf :: "u16 \<Rightarrow> bytes \<Rightarrow> u32 \<Rightarrow> bytes" where
  "frame_buf msgID msg seqID =
     (let len = length msg;
          buf = replicate (len + 10) 0;
          buf = splice 10 msg buf;
          buf = splice 0 (put_u16 msgID) buf;
          buf = splice 2 (put_u32 (word_of_nat (len + 10))) buf
      in splice 6 (put_u32 seqID) buf)"

definition writer_Write ::
  "(nat \<Rightarrow> nat \<Rightarrow> nat) \<Rightarrow> u16 \<Rightarrow> bytes \<Rightarrow> u32 \<Rightarrow> 'k writer \<Rightarrow> goerr option \<times> 'k writer" where
  "writer_Write grow msgID msg seqID w =
     (if w_err w \<noteq> None then (w_err w, w)
      else let buf = frame_buf msgID msg seqID
           in (None, w\<lparr>w_b := w_b w @ buf,
                       w_cap := append_cap grow (w_cap w) (length (w_b w) + length buf)\<rparr>))"

text \<open>The layout of a frame: identifier, total size, sequence number, body.\<close>

definition frame_size :: "bytes \<Rightarrow> u32" where
  "frame_size msg = word_of_nat (length msg + 10)"

definition frame :: "u16 \<Rightarrow> bytes \<Rightarrow> u32 \<Rightarrow> bytes" where
  "frame msgID msg seqID =
     put_u16 msgID @ put_u32 (frame_size msg) @ put_u32 seqID @ msg"

lemma frame_buf_frame: "frame_buf msgID msg seqID = frame msgID msg seqID"
proof -
  have zeros: "replicate (length msg + 10) 0 =
      replicate 2 0 @ replicate 4 0 @ replicate 4 0 @ (replicate (length msg) 0 :: bytes)"
    by (simp flip: replicate_add add: add.commute)
  show ?thesis
    by (simp add: frame_buf_def frame_def frame_size_def Let_def zeros splice_def put_u16_def put_u32_def
        numeral_eq_Suc)
qed

lemma length_frame [simp, wire_simps]: "length (frame i m s) = length m + 10"
  by (simp add: frame_def)

lemma frame_parts [simp, wire_simps]:
  "take 2 (frame i b q) = put_u16 i"
  "take 4 (drop 2 (frame i b q)) = put_u32 (frame_size b)"
  "drop 10 (frame i b q) = b"
  by (simp_all add: frame_def)

lemma frame_size_exact: "length b + 10 < 2 ^ 32 \<Longrightarrow> unat (frame_size b) = length b + 10"
  unfolding frame_size_def by (simp only: unat_of_nat) simp

section \<open>Pop: hand the buffer over\<close>

definition writer_Pop :: "'k writer \<Rightarrow> (goerr + bytes) \<times> 'k writer" where
  "writer_Pop w =
     (case w_err w of
        Some e \<Rightarrow> (Inl e, w)
      | None \<Rightarrow>
          (let tmp = w_b w
           in (Inr tmp,
               if 262144 < w_cap w then w\<lparr>w_b := [], w_cap := 0\<rparr> else w\<lparr>w_b := []\<rparr>)))"

section \<open>Flush: write to the sink, remember the first error\<close>

definition writer_Flush ::
  "(bytes \<Rightarrow> 'k \<Rightarrow> goerr option \<times> 'k) \<Rightarrow> bytes \<Rightarrow> 'k writer \<Rightarrow> goerr option \<times> 'k writer" where
  "writer_Flush wr b w =
     (if w_err w \<noteq> None then (w_err w, w)
      else case wr b (w_w w) of
             (None, k) \<Rightarrow> (w_err w, w\<lparr>w_w := k\<rparr>)
           | (Some e, k) \<Rightarrow> (Some e, w\<lparr>w_w := k, w_err := Some e\<rparr>))"

section \<open>The contract: a byte queue of frames\<close>

text \<open>
  What \<open>Agent.Write\<close> and \<open>Agent.loopWrite\<close> rely on: putting a message appends its
  encoding, taking empties the queue and returns exactly what was in it. The operations run
  under a condition \<open>ok\<close> that they keep (no write error so far).
\<close>

datatype 'm queue_op = QPut 'm | QTake

fun queue_run :: "('m \<Rightarrow> 'q \<Rightarrow> 'q) \<Rightarrow> ('q \<Rightarrow> bytes \<times> 'q) \<Rightarrow> 'm queue_op list \<Rightarrow> 'q \<Rightarrow> bytes list \<times> 'q" where
  "queue_run put grab [] q = ([], q)"
| "queue_run put grab (QPut m # ops) q = queue_run put grab ops (put m q)"
| "queue_run put grab (QTake # ops) q =
     (let (b, q) = grab q; (bs, q) = queue_run put grab ops q in (b # bs, q))"

fun queue_puts :: "'m queue_op list \<Rightarrow> 'm list" where
  "queue_puts [] = []"
| "queue_puts (QPut m # ops) = m # queue_puts ops"
| "queue_puts (QTake # ops) = queue_puts ops"

locale byte_queue =
  fixes enc :: "'m \<Rightarrow> bytes"
    and put :: "'m \<Rightarrow> 'q \<Rightarrow> 'q"
    and grab :: "'q \<Rightarrow> bytes \<times> 'q"
    and content :: "'q \<Rightarrow> bytes"
    and ok :: "'q \<Rightarrow> bool"
  assumes content_put: "ok q \<Longrightarrow> content (put m q) = content q @ enc m"
    and grab_content: "ok q \<Longrightarrow> fst (grab q) = content q"
    and content_grab: "ok q \<Longrightarrow> content (snd (grab q)) = []"
    and ok_put: "ok q \<Longrightarrow> ok (put m q)"
    and ok_grab: "ok q \<Longrightarrow> ok (snd (grab q))"
begin

text \<open>Nothing is lost, duplicated or reordered, however puts and takes are interleaved.\<close>

lemma run_conserves:
  assumes "ok q" and "queue_run put grab ops q = (bs, q')"
  shows "concat bs @ content q' = content q @ concat (map enc (queue_puts ops)) \<and> ok q'"
  using assms
proof (induction ops arbitrary: q bs q' rule: queue_puts.induct)
  case 1
  then show ?case by simp
next
  case (2 m ops)
  from "2.IH" [OF ok_put [OF "2.prems"(1)]] "2.prems" show ?case
    by (simp add: content_put)
next
  case (3 ops)
  obtain bs1 q1 where run: "queue_run put grab ops (snd (grab q)) = (bs1, q1)"
    by fastforce
  have "concat bs1 @ content q1 =
      content (snd (grab q)) @ concat (map enc (queue_puts ops)) \<and> ok q1"
    using "3.IH" [OF ok_grab [OF "3.prems"(1)] run] .
  moreover have "bs = fst (grab q) # bs1" and "q' = q1"
    using "3.prems"(2) run by (auto simp: case_prod_beta Let_def)
  ultimately show ?case
    using "3.prems"(1) by (simp add: grab_content content_grab)
qed

end

type_synonym wmsg = "u16 \<times> bytes \<times> u32"

definition wmsg_frame :: "wmsg \<Rightarrow> bytes" where
  "wmsg_frame m = (case m of (i, b, s) \<Rightarrow> frame i b s)"

definition writer_put :: "(nat \<Rightarrow> nat \<Rightarrow> nat) \<Rightarrow> wmsg \<Rightarrow> 'k writer \<Rightarrow> 'k writer" where
  "writer_put grow m w = (case m of (i, b, s) \<Rightarrow> snd (writer_Write grow i b s w))"

definition writer_grab :: "'k writer \<Rightarrow> bytes \<times> 'k writer" where
  "writer_grab w = (case writer_Pop w of (Inr b, w') \<Rightarrow> (b, w') | (Inl e, w') \<Rightarrow> ([], w'))"

interpretation wq: byte_queue wmsg_frame "writer_put grow" writer_grab w_b "\<lambda>w. w_err w = None"
  by unfold_locales
    (auto simp: writer_put_def writer_grab_def writer_Write_def writer_Pop_def wmsg_frame_def
      frame_buf_frame Let_def split: prod.splits)

section \<open>The sink's contract\<close>

text \<open>
  \<open>io.Writer\<close>: a successful \<open>Write\<close> delivers all its bytes, a failed one a prefix of them.
\<close>

locale io_sink =
  fixes wr :: "bytes \<Rightarrow> 'k \<Rightarrow> goerr option \<times> 'k"
    and delivered :: "'k \<Rightarrow> bytes"
  assumes wr_ok: "wr b k = (None, k') \<Longrightarrow> delivered k' = delivered k @ b"
    and wr_fail: "wr b k = (Some e, k') \<Longrightarrow> \<exists>p. prefix p b \<and> delivered k' = delivered k @ p"
begin

lemma flush_delivers:
  "writer_Flush wr b w = (None, w') \<Longrightarrow>
     delivered (w_w w') = delivered (w_w w) @ b \<and> w_b w' = w_b w \<and> w_err w' = None"
  by (auto simp: writer_Flush_def dest: wr_ok split: prod.splits option.splits if_splits)

lemma flush_fails:
  "writer_Flush wr b w = (Some e, w') \<Longrightarrow>
     w_err w' = Some e \<and> w_b w' = w_b w \<and>
     (\<exists>p. prefix p b \<and> delivered (w_w w') = delivered (w_w w) @ p)"
  by (fastforce simp: writer_Flush_def dest: wr_fail split: prod.splits option.splits if_splits)

end

section \<open>Errors stick\<close>

lemma writer_err_sticks:
  assumes "w_err w = Some e"
  shows "writer_Write grow i b s w = (Some e, w)"
    and "writer_Pop w = (Inl e, w)"
    and "writer_Flush wr b w = (Some e, w)"
  using assms by (simp_all add: writer_Write_def writer_Pop_def writer_Flush_def)

section \<open>Capacity\<close>

definition writer_ok :: "'k writer \<Rightarrow> bool" where
  "writer_ok w \<longleftrightarrow> length (w_b w) \<le> w_cap w"

context append_policy
begin

lemma writer_ok_ops:
  "writer_ok w \<Longrightarrow> writer_ok (snd (writer_Write grow i b s w))"
  "writer_ok w \<Longrightarrow> writer_ok (snd (writer_Pop w))"
  "writer_ok w \<Longrightarrow> writer_ok (snd (writer_Flush wr b w))"
  by (auto simp: writer_ok_def writer_Write_def writer_Pop_def writer_Flush_def Let_def
      append_cap_enough split: option.splits prod.splits)

end

lemma writer_ok_New: "writer_ok (writer_New k)"
  by (simp add: writer_ok_def writer_New_def)

end
