(* ===== verification/Conn.thy ===== *)
theory Conn
  imports Writer
begin

text \<open>
  The TCP connection as the gateway uses it (\<open>net.Conn\<close>) and \<open>io.ReadFull\<close> on it.
  Incoming data is a list of segments: one \<open>Read\<close> returns at most what is left of the
  first one, so a frame may arrive in any number of pieces. After the last segment
  \<open>Read\<close> fails with \<open>c_end\<close> (end of file, reset, timeout). A \<open>Write\<close> succeeds while
  there is room; \<open>c_room = None\<close> means it always does.
\<close>

record conn =
  c_in :: "bytes list"
  c_end :: goerr
  c_out :: bytes
  c_room :: "(nat \<times> goerr) option"
  c_closed :: bool

definition conn_Close :: "conn \<Rightarrow> conn" where
  "conn_Close c = c\<lparr>c_closed := True\<rparr>"

definition conn_Write :: "bytes \<Rightarrow> conn \<Rightarrow> goerr option \<times> conn" where
  "conn_Write b c =
     (if c_closed c then (Some NetClosed, c)
      else case c_room c of
             None \<Rightarrow> (None, c\<lparr>c_out := c_out c @ b\<rparr>)
           | Some (n, e) \<Rightarrow>
               if length b \<le> n
               then (None, c\<lparr>c_out := c_out c @ b, c_room := Some (n - length b, e)\<rparr>)
               else (Some e, c\<lparr>c_out := c_out c @ take n b, c_room := Some (0, e)\<rparr>))"

interpretation tcp: io_sink conn_Write c_out
  by unfold_locales
    (auto simp: conn_Write_def take_is_prefix split: if_splits option.splits)

text \<open>The loop of \<open>io.ReadAtLeast\<close>: read until the buffer is full or a read fails.\<close>

fun read_at_least :: "nat \<Rightarrow> bytes \<Rightarrow> bytes list \<Rightarrow> bytes \<times> bytes list" where
  "read_at_least n acc [] = (acc, [])"
| "read_at_least n acc (s # ss) =
     (if n \<le> length acc then (acc, s # ss)
      else if length s \<le> n - length acc then read_at_least n (acc @ s) ss
      else (acc @ take (n - length acc) s, drop (n - length acc) s # ss))"

definition io_ReadFull :: "nat \<Rightarrow> conn \<Rightarrow> bytes \<times> goerr option \<times> conn" where
  "io_ReadFull n c =
     (let (got, rest) = read_at_least n [] (if c_closed c then [] else c_in c);
          fault = (if c_closed c then NetClosed else c_end c);
          err = (if n \<le> length got then None
                 else if got \<noteq> [] \<and> fault = IoEOF then Some IoErrUnexpectedEOF
                 else Some fault)
      in (got, err, if c_closed c then c else c\<lparr>c_in := rest\<rparr>))"

lemma read_at_least_concat:
  "length acc \<le> n \<Longrightarrow> read_at_least n acc segs = (got, rest) \<Longrightarrow>
     got = take n (acc @ concat segs) \<and> concat rest = drop n (acc @ concat segs)"
proof (induction n acc segs arbitrary: got rest rule: read_at_least.induct)
  case (1 n acc)
  then show ?case by auto
next
  case (2 n acc s ss)
  show ?case
  proof (cases "n \<le> length acc")
    case True
    with 2 show ?thesis by auto
  next
    case False
    note full = this
    show ?thesis
    proof (cases "length s \<le> n - length acc")
      case True
      with full "2.prems" "2.IH" [OF full True, of got rest] show ?thesis by simp
    next
      case False
      with full "2.prems" show ?thesis by auto
    qed
  qed
qed

text \<open>
  What \<open>io.ReadFull\<close> does to the byte stream, whatever its segmentation.
\<close>

definition pending :: "conn \<Rightarrow> bytes" where
  "pending c = (if c_closed c then [] else concat (c_in c))"

definition fault :: "conn \<Rightarrow> goerr" where
  "fault c = (if c_closed c then NetClosed else c_end c)"

definition short_err :: "bytes \<Rightarrow> goerr \<Rightarrow> goerr" where
  "short_err got e = (if got \<noteq> [] \<and> e = IoEOF then IoErrUnexpectedEOF else e)"

lemma io_ReadFull_stream:
  assumes "io_ReadFull n c = (got, err, c')"
  shows "got = take n (pending c)" and "pending c' = drop n (pending c)" and "fault c' = fault c"
    and "err = (if n \<le> length (pending c) then None else Some (short_err (pending c) (fault c)))"
proof -
  define segs where "segs = (if c_closed c then [] else c_in c)"
  obtain rest where r: "read_at_least n [] segs = (got, rest)"
    and c': "c' = (if c_closed c then c else c\<lparr>c_in := rest\<rparr>)"
    and err: "err = (if n \<le> length got then None
      else if got \<noteq> [] \<and> fault c = IoEOF then Some IoErrUnexpectedEOF else Some (fault c))"
    using assms by (auto simp: io_ReadFull_def segs_def fault_def Let_def split: prod.splits)
  have pend: "concat segs = pending c" by (simp add: segs_def pending_def)
  with read_at_least_concat [OF _ r] have got: "got = take n (pending c)"
    and rest: "concat rest = drop n (pending c)" by simp_all
  show "got = take n (pending c)" by (rule got)
  show "pending c' = drop n (pending c)"
    using rest by (simp add: c' pending_def)
  show "fault c' = fault c" by (simp add: c' fault_def)
  show "err = (if n \<le> length (pending c) then None else Some (short_err (pending c) (fault c)))"
    by (auto simp: err got short_err_def)
qed

end
