(* ===== verification/Agent_Read.thy ===== *)
theory Agent_Read
  imports Hooks Conn
begin

text \<open>
  The read loop of an agent, \<open>loopRead\<close> of \<open>src/pkg/agent/agent.go\<close>: one frame after
  another is read from the connection, checked by the hooks and handed to the plugin
  chain, until something fails. The plugin chain and the agent state it works on are
  parameters here; \<open>Plugins\<close> supplies the real ones.
\<close>

section \<open>One frame\<close>

record msg =
  msg_ID :: u16
  msg_Body :: bytes

definition Msg :: "u16 \<Rightarrow> bytes \<Rightarrow> msg" where
  "Msg i b = \<lparr>msg_ID = i, msg_Body = b\<rparr>"

definition msgHeaderLen :: nat where "msgHeaderLen = 10"

datatype frame_out = Frame msg conn | Stop goerr conn | Crash string conn

definition read_frame :: "conn \<Rightarrow> frame_out" where
  "read_frame c =
     (let (hdr, err, c) = io_ReadFull msgHeaderLen c
      in case err of Some e \<Rightarrow> Stop e c
       | None \<Rightarrow>
         if length hdr \<noteq> msgHeaderLen then Stop IoEOF c
         else (case hookHeader (Some hdr) of
           Panic m \<Rightarrow> Crash m c
         | Ret (Some e) \<Rightarrow> Stop e c
         | Ret None \<Rightarrow>
             (let i = get_u16 (take 2 hdr);
                  sz = get_u32 (take 4 (drop 2 hdr));
                  bodySize = sz - word_of_nat msgHeaderLen;
                  (body, err, c) = io_ReadFull (unat bodySize) c
              in case err of Some e \<Rightarrow> Stop e c
               | None \<Rightarrow>
                 if bodySize \<noteq> word_of_nat (length body) then Stop IoEOF c
                 else (case hookBody (Some hdr) (Some body) of
                   Some e \<Rightarrow> Stop e c
                 | None \<Rightarrow> Frame (Msg i body) c))))"

text \<open>The same on the byte stream: what a frame is, independently of segments.\<close>

datatype parsed = PFrame msg bytes | PStop goerr bytes

definition parse_frame :: "bytes \<Rightarrow> goerr \<Rightarrow> parsed" where
  "parse_frame s e =
     (if length s < 10 then PStop (short_err s e) []
      else let i = get_u16 (take 2 s); sz = get_u32 (take 4 (drop 2 s)); rest = drop 10 s
           in if \<not> header_ok i sz then PStop (header_err i sz) rest
              else if length rest < unat sz - 10 then PStop (short_err rest e) []
              else PFrame (Msg i (take (unat sz - 10) rest)) (drop (unat sz - 10) rest))"

lemma take_header [simp]:
  "take 2 (take 10 s) = take 2 (s :: bytes)" "take 4 (drop 2 (take 10 s)) = take 4 (drop 2 s)"
  by (simp_all add: drop_take)

definition frame_view :: "frame_out \<Rightarrow> parsed" where
  "frame_view r = (case r of Frame m c \<Rightarrow> PFrame m (pending c) | Stop e c \<Rightarrow> PStop e (pending c)
     | Crash m c \<Rightarrow> PStop (OtherErr m) (pending c))"

definition frame_conn :: "frame_out \<Rightarrow> conn" where
  "frame_conn r = (case r of Frame m c \<Rightarrow> c | Stop e c \<Rightarrow> c | Crash m c \<Rightarrow> c)"

lemma read_frame_parse:
  "frame_view (read_frame c) = parse_frame (pending c) (fault c)"
  "fault (frame_conn (read_frame c)) = fault c"
  "read_frame c \<noteq> Crash m c'"
proof -
  obtain hdr err c1 where r1: "io_ReadFull 10 c = (hdr, err, c1)" by (metis prod_cases3)
  note s1 = io_ReadFull_stream [OF r1]
  define i sz where "i = get_u16 (take 2 (pending c))" and "sz = get_u32 (take 4 (drop 2 (pending c)))"
  obtain body err2 c2 where r2: "io_ReadFull (unat (sz - 10)) c1 = (body, err2, c2)"
    by (metis prod_cases3)
  note s2 = io_ReadFull_stream [OF r2]
  have "frame_view (read_frame c) = parse_frame (pending c) (fault c)
      \<and> fault (frame_conn (read_frame c)) = fault c \<and> read_frame c \<noteq> Crash m c'"
  proof (cases "length (pending c) < 10")
    case True
    then show ?thesis
      using s1 r1 by (simp add: read_frame_def msgHeaderLen_def parse_frame_def frame_view_def
          frame_conn_def)
  next
    case False
    then have hook: "hookHeader (Some hdr) = (if header_ok i sz then Ret None
        else Ret (Some (header_err i sz)))"
      using s1 by (simp add: hookHeader_eq i_def sz_def Let_def)
    show ?thesis
    proof (cases "header_ok i sz")
      case bad: False
      then show ?thesis
        using s1 r1 False hook
        by (simp add: read_frame_def msgHeaderLen_def parse_frame_def frame_view_def
            frame_conn_def i_def sz_def Let_def)
    next
      case True
      have size: "unat (sz - 10) = unat sz - 10"
        by (rule header_ok_body_size [OF True])
      have body: "word_of_nat (unat sz - 10) = sz - 10"
        by (simp flip: size)
      show ?thesis
        using s1 s2 r1 r2 False hook True size body
        by (auto simp: read_frame_def msgHeaderLen_def parse_frame_def frame_view_def
            frame_conn_def hookBody_def Let_def i_def [symmetric] sz_def [symmetric])
    qed
  qed
  then show "frame_view (read_frame c) = parse_frame (pending c) (fault c)"
    and "fault (frame_conn (read_frame c)) = fault c" and "read_frame c \<noteq> Crash m c'"
    by blast+
qed


section \<open>The loop\<close>

text \<open>
  How the loop ends: with an error, or in the deferred \<open>recover\<close> after a panic (the
  function then returns nil). \<open>dis\<close> reads \<open>agent.disable\<close>, \<open>plug\<close> is
  \<open>plugins.PluginsMain\<close>; both work on the state \<open>'s\<close> of the rest of the gateway.
\<close>

datatype loop_exit = Exited goerr | Recovered string

lemma frame_consumes:
  assumes "parse_frame s e = PFrame m s'"
  shows "length s' < length s"
  using assms by (auto simp: parse_frame_def Let_def split: if_splits)

lemma read_frame_shrinks:
  "read_frame c = Frame m c' \<Longrightarrow> length (pending c') < length (pending c)"
  using read_frame_parse(1) [of c] by (auto simp: frame_view_def intro: frame_consumes [OF sym])

function loopRead ::
  "('s \<Rightarrow> bool) \<Rightarrow> (msg \<Rightarrow> 's \<Rightarrow> goerr option go \<times> 's) \<Rightarrow> conn \<Rightarrow> 's \<Rightarrow> loop_exit \<times> conn \<times> 's"
where
  "loopRead dis plug c s =
     (case read_frame c of
        Stop e c \<Rightarrow> (Exited e, c, s)
      | Crash p c \<Rightarrow> (Recovered p, c, s)
      | Frame m c \<Rightarrow>
          if \<not> dis s
          then (case plug m s of
                  (Panic p, s) \<Rightarrow> (Recovered p, c, s)
                | (Ret (Some e), s) \<Rightarrow> (Exited e, c, s)
                | (Ret None, s) \<Rightarrow> loopRead dis plug c s)
          else loopRead dis plug c s)"
  by pat_completeness auto
termination
  by (relation "measure (\<lambda>(dis, plug, c, s). length (pending c))")
    (auto dest: read_frame_shrinks)

declare loopRead.simps [simp del]

text \<open>
  The specification: split the stream into messages and the reason it stops, then feed the
  messages to the plugins.
\<close>

function parse_stream :: "bytes \<Rightarrow> goerr \<Rightarrow> msg list \<times> goerr" where
  "parse_stream s e =
     (case parse_frame s e of
        PStop r _ \<Rightarrow> ([], r)
      | PFrame m s' \<Rightarrow> (let (ms, r) = parse_stream s' e in (m # ms, r)))"
  by pat_completeness auto
termination
  by (relation "measure (\<lambda>(s, e). length s)") (auto dest: frame_consumes)

declare parse_stream.simps [simp del]

fun feed ::
  "('s \<Rightarrow> bool) \<Rightarrow> (msg \<Rightarrow> 's \<Rightarrow> goerr option go \<times> 's) \<Rightarrow> msg list \<Rightarrow> goerr \<Rightarrow> 's \<Rightarrow> loop_exit \<times> 's"
where
  "feed dis plug [] r s = (Exited r, s)"
| "feed dis plug (m # ms) r s =
     (if dis s then feed dis plug ms r s
      else (case plug m s of
              (Panic p, s) \<Rightarrow> (Recovered p, s)
            | (Ret (Some e), s) \<Rightarrow> (Exited e, s)
            | (Ret None, s) \<Rightarrow> feed dis plug ms r s))"

lemma loopRead_refines:
  "(case loopRead dis plug c s of (r, c', s') \<Rightarrow> (r, s')) =
   (case parse_stream (pending c) (fault c) of (ms, r) \<Rightarrow> feed dis plug ms r s)"
proof (induction dis plug c s rule: loopRead.induct)
  case (1 dis plug c s)
  note spec = read_frame_parse [of c]
  show ?case
  proof (cases "read_frame c")
    case (Frame m c')
    then have p: "parse_frame (pending c) (fault c) = PFrame m (pending c')"
      and f: "fault c' = fault c"
      using spec(1,2) by (auto simp: frame_view_def frame_conn_def)
    show ?thesis
      using "1.IH"(1) [OF Frame] "1.IH"(2) [OF Frame] p f Frame
      by (subst loopRead.simps, subst parse_stream.simps)
        (auto split: prod.splits go.splits option.splits)
  next
    case (Stop e c')
    then have "parse_frame (pending c) (fault c) = PStop e (pending c')"
      using spec(1) by (auto simp: frame_view_def)
    with Stop show ?thesis
      by (subst loopRead.simps, subst parse_stream.simps) simp
  next
    case (Crash p c')
    with spec(3) show ?thesis by blast
  qed
qed

section \<open>What the writer frames, the reader parses\<close>

definition valid_msg :: "msg \<Rightarrow> bool" where
  "valid_msg m \<longleftrightarrow> minID \<le> msg_ID m \<and> msg_ID m \<le> maxID \<and> length (msg_Body m) \<le> 1048566"

definition msg_frame :: "msg \<times> u32 \<Rightarrow> bytes" where
  "msg_frame ms = frame (msg_ID (fst ms)) (msg_Body (fst ms)) (snd ms)"

lemma Msg_eq [simp]: "Msg (msg_ID m) (msg_Body m) = m"
  by (simp add: Msg_def)

lemma valid_header:
  assumes "length b \<le> 1048566"
  shows "unat (frame_size b) = length b + 10"
    and "header_ok i (frame_size b) \<longleftrightarrow> minID \<le> i \<and> i \<le> maxID"
proof -
  show u: "unat (frame_size b) = length b + 10"
    using assms by (simp add: frame_size_exact)
  show "header_ok i (frame_size b) \<longleftrightarrow> minID \<le> i \<and> i \<le> maxID"
    using assms u by (simp add: header_ok_def minSize_def maxSize_def word_le_nat_alt)
qed

lemma parse_frame_frame:
  "valid_msg m \<Longrightarrow> parse_frame (msg_frame (m, q) @ r) e = PFrame m r"
  by (simp add: parse_frame_def msg_frame_def valid_msg_def valid_header Let_def)

lemma parse_stream_frames:
  "\<forall>m \<in> set ms. valid_msg (fst m) \<Longrightarrow>
     parse_stream (concat (map msg_frame ms) @ r) e =
       (map fst ms @ fst (parse_stream r e), snd (parse_stream r e))"
proof (induction ms)
  case Nil
  then show ?case by simp
next
  case (Cons m ms)
  then have "parse_frame (msg_frame m @ concat (map msg_frame ms) @ r) e =
      PFrame (fst m) (concat (map msg_frame ms) @ r)"
    by (cases m) (simp add: parse_frame_frame)
  with Cons show ?case
    by (subst parse_stream.simps) (simp add: case_prod_beta)
qed

lemma parse_stream_valid: "m \<in> set (fst (parse_stream s e)) \<Longrightarrow> valid_msg m"
proof (induction s e rule: parse_stream.induct)
  case (1 s e)
  have valid: "valid_msg m'" if "parse_frame s e = PFrame m' s'" for m' s'
    using that by (auto simp: parse_frame_def Let_def valid_msg_def header_ok_def Msg_def
        maxSize_def word_le_nat_alt split: if_splits)
  from 1 show ?case
    by (subst (asm) parse_stream.simps)
      (auto split: parsed.splits prod.splits intro: valid simp: case_prod_beta)
qed

text \<open>Plugins that always succeed, on an agent that stays enabled: every message is processed.\<close>

lemma feed_fold:
  assumes "\<And>m s. plug m s = (Ret None, upd m s)" and "\<And>s. \<not> dis s"
  shows "feed dis plug ms r s = (Exited r, fold upd ms s)"
  using assms by (induction ms arbitrary: s) auto

lemma feed_disabled:
  assumes "dis s"
  shows "feed dis plug ms r s = (Exited r, s)"
  using assms by (induction ms) auto

lemma feed_only_parsed:
  assumes "feed dis plug ms r s = (x, s')" and "P s"
    and "\<And>m t x t'. m \<in> set ms \<Longrightarrow> P t \<Longrightarrow> \<not> dis t \<Longrightarrow> plug m t = (x, t') \<Longrightarrow> P t'"
  shows "P s'"
  using assms
proof (induction ms arbitrary: s)
  case Nil
  then show ?case by simp
next
  case (Cons m ms)
  have tail: "P s'" if "feed dis plug ms r t = (x, s')" "P t" for t
    using Cons.IH that Cons.prems(3) by (meson list.set_intros(2))
  have step: "P t'" if "plug m s = (y, t')" "\<not> dis s" for y t'
    using Cons.prems(2) that by (intro Cons.prems(3) [of m s y t']) auto
  show ?case
    using Cons.prems(1,2)
    by (auto split: if_splits prod.splits go.splits option.splits dest: step tail)
qed

lemma loopRead_feed:
  obtains c' where "loopRead dis plug c s =
    (fst (feed dis plug (fst (parse_stream (pending c) (fault c)))
        (snd (parse_stream (pending c) (fault c))) s), c',
     snd (feed dis plug (fst (parse_stream (pending c) (fault c)))
        (snd (parse_stream (pending c) (fault c))) s))"
  using loopRead_refines [of dis plug c s]
  by (cases "loopRead dis plug c s") (auto simp: case_prod_beta dest: sym)

lemma parse_stream_stop:
  "parse_frame s e = PStop r s' \<Longrightarrow> parse_stream s e = ([], r)"
  by (subst parse_stream.simps) simp

text \<open>A frame cut short is never taken for a message.\<close>

lemma parse_frame_cut:
  assumes "valid_msg m" and "strict_prefix p (msg_frame (m, q))"
  shows "parse_frame p e = PStop (short_err (if length p < 10 then p else drop 10 p) e) []"
proof (cases "length p < 10")
  case True
  then show ?thesis by (simp add: parse_frame_def)
next
  case False
  obtain r where r: "msg_frame (m, q) = p @ r" and "r \<noteq> []"
    using assms(2) by (auto simp: strict_prefix_def prefix_def)
  then have eq: "frame (msg_ID m) (msg_Body m) q = p @ r" by (simp add: msg_frame_def)
  have parts: "take 2 p = put_u16 (msg_ID m)" "take 4 (drop 2 p) = put_u32 (frame_size (msg_Body m))"
    using frame_parts(1) [of "msg_ID m" "msg_Body m" q] frame_parts(2) [of "msg_ID m" "msg_Body m" q] False
    unfolding eq by simp_all
  have "length p < length (msg_Body m) + 10"
    using arg_cong [OF r, of length] \<open>r \<noteq> []\<close> by (simp add: msg_frame_def)
  with parts False assms(1) show ?thesis
    by (simp add: parse_frame_def valid_msg_def valid_header Let_def)
qed

section \<open>Properties\<close>

text \<open>C11: how TCP cuts the stream into segments does not matter: two connections that carry the
  same bytes and end the same way make the read loop process the same messages and end the
  same way.\<close>

theorem loopRead_segmentation:
  assumes "concat (c_in c1) = concat (c_in c2)" and "c_end c1 = c_end c2"
    and "\<not> c_closed c1" and "\<not> c_closed c2"
  shows "fst (loopRead dis plug c1 s) = fst (loopRead dis plug c2 s) \<and>
    snd (snd (loopRead dis plug c1 s)) = snd (snd (loopRead dis plug c2 s))"
proof -
  have "pending c1 = pending c2" and "fault c1 = fault c2"
    using assms by (simp_all add: pending_def fault_def)
  then have "(case loopRead dis plug c1 s of (r, c', s') \<Rightarrow> (r, s')) =
      (case loopRead dis plug c2 s of (r, c', s') \<Rightarrow> (r, s'))"
    by (simp add: loopRead_refines)
  then show ?thesis by (simp add: case_prod_beta)
qed

definition demo_stream :: "bytes list \<Rightarrow> conn" where
  "demo_stream segs = \<lparr>c_in = segs, c_end = IoEOF, c_out = [], c_room = None, c_closed = False\<rparr>"

theorem loopRead_segmentation_witness:
  "fst (loopRead (\<lambda>_. False) (\<lambda>m t. (Ret None, m # t)) (demo_stream [[1, 2], [], [3]]) []) =
   fst (loopRead (\<lambda>_. False) (\<lambda>m t. (Ret None, m # t)) (demo_stream [[1, 2, 3]]) [])"
proof -
  have "concat (c_in (demo_stream [[1, 2], [], [3]])) = concat (c_in (demo_stream [[1, 2, 3]]))"
    and "c_end (demo_stream [[1, 2], [], [3]]) = c_end (demo_stream [[1, 2, 3]])"
    and "\<not> c_closed (demo_stream [[1, 2], [], [3]])" and "\<not> c_closed (demo_stream [[1, 2, 3]])"
    by (simp_all add: demo_stream_def)
  from loopRead_segmentation [OF this, of "\<lambda>_. False" "\<lambda>m t. (Ret None, m # t)" "[]"]
  show ?thesis by simp
qed

text \<open>C3: round trip with the writer: if a client sends frames as \<open>Writer.Write\<close> builds them,
  with identifiers from 1000 to 60000 and at most one megabyte each, the read loop hands
  exactly these messages to the plugins, in order, and ends with the connection's own error.\<close>

theorem loopRead_delivers:
  assumes "concat (c_in c) = concat (map msg_frame ms)" and "\<not> c_closed c"
    and "\<And>m. m \<in> set ms \<Longrightarrow> valid_msg (fst m)"
    and "\<And>m t. plug m t = (Ret None, upd m t)" and "\<And>t. \<not> dis t"
  shows "fst (loopRead dis plug c s) = Exited (c_end c) \<and>
    snd (snd (loopRead dis plug c s)) = fold upd (map fst ms) s"
proof -
  have "parse_stream (pending c) (fault c) = (map fst ms, c_end c)"
    using parse_stream_frames [of ms "[]" "c_end c"] assms(1-3)
    by (simp add: pending_def fault_def parse_stream_stop [where r = "c_end c"] parse_frame_def
        short_err_def)
  then have "(case loopRead dis plug c s of (r, c', s') \<Rightarrow> (r, s')) =
      (Exited (c_end c), fold upd (map fst ms) s)"
    by (simp add: loopRead_refines feed_fold [of plug upd dis, OF assms(4,5)])
  then show ?thesis by (auto simp: case_prod_beta)
qed

theorem loopRead_delivers_witness:
  "snd (snd (loopRead (\<lambda>_. False) (\<lambda>m t. (Ret None, t @ [m]))
     (demo_stream [take 3 (msg_frame (Msg 1001 [7, 8], 0)), drop 3 (msg_frame (Msg 1001 [7, 8], 0))]) [])) =
   [Msg 1001 [7, 8]]"
proof -
  let ?m = "(Msg 1001 [7, 8], 0 :: u32)" and ?upd = "\<lambda>m t. t @ [m]"
  let ?c = "demo_stream [take 3 (msg_frame ?m), drop 3 (msg_frame ?m)]"
  have "concat (c_in ?c) = concat (map msg_frame [?m])" and "\<not> c_closed ?c"
    by (simp_all add: demo_stream_def)
  moreover have "valid_msg (fst m)" if "m \<in> set [?m]" for m
    using that by (simp add: valid_msg_def Msg_def minID_def maxID_def)
  ultimately show ?thesis
    using loopRead_delivers [of ?c "[?m]" "\<lambda>m t. (Ret None, t @ [m])" ?upd "\<lambda>_. False" "[]"] by simp
qed

text \<open>C27: a header with an identifier or a size out of range ends the loop with the hook's error;
  the messages before it were processed, and nothing after it is ever looked at.\<close>

theorem loopRead_rejects:
  assumes "concat (c_in c) = concat (map msg_frame ms) @ h @ rest" and "\<not> c_closed c"
    and "\<And>m. m \<in> set ms \<Longrightarrow> valid_msg (fst m)"
    and "length h = 10" and "\<not> header_ok (get_u16 (take 2 h)) (get_u32 (take 4 (drop 2 h)))"
    and "\<And>m t. plug m t = (Ret None, upd m t)" and "\<And>t. \<not> dis t"
  shows "fst (loopRead dis plug c s) =
      Exited (header_err (get_u16 (take 2 h)) (get_u32 (take 4 (drop 2 h)))) \<and>
    snd (snd (loopRead dis plug c s)) = fold upd (map fst ms) s"
proof -
  let ?e = "header_err (get_u16 (take 2 h)) (get_u32 (take 4 (drop 2 h)))"
  have "parse_frame (h @ rest) (c_end c) = PStop ?e rest"
    using assms(4,5) by (simp add: parse_frame_def Let_def)
  then have "parse_stream (pending c) (fault c) = (map fst ms, ?e)"
    using parse_stream_frames [of ms "h @ rest" "c_end c"] assms(1-3)
    by (simp add: pending_def fault_def parse_stream_stop)
  then have "(case loopRead dis plug c s of (r, c', s') \<Rightarrow> (r, s')) =
      (Exited ?e, fold upd (map fst ms) s)"
    by (simp add: loopRead_refines feed_fold [of plug upd dis, OF assms(6,7)])
  then show ?thesis by (auto simp: case_prod_beta)
qed

theorem loopRead_rejects_witness:
  "fst (loopRead (\<lambda>_. False) (\<lambda>m t. (Ret None, t @ [m]))
     (demo_stream [[231, 3, 10, 0, 0, 0, 0, 0, 0, 0], [5, 5]]) ([] :: msg list)) = Exited ErrBadHeaderID"
proof -
  let ?c = "demo_stream [[231, 3, 10, 0, 0, 0, 0, 0, 0, 0], [5, 5]]"
  let ?h = "[231, 3, 10, 0, 0, 0, 0, 0, 0, 0] :: bytes"
  have id: "get_u16 (take 2 ?h) = 999" by (simp add: get_u16_def)
  have bad: "\<not> header_ok (get_u16 (take 2 ?h)) (get_u32 (take 4 (drop 2 ?h)))"
    unfolding id by (simp add: header_ok_def minID_def)
  have "header_err (get_u16 (take 2 ?h)) (get_u32 (take 4 (drop 2 ?h))) = ErrBadHeaderID"
    unfolding id by (simp add: header_err_def minID_def)
  moreover have "concat (c_in ?c) = concat (map msg_frame []) @ ?h @ [5, 5]" "\<not> c_closed ?c"
    "length ?h = 10"
    by (simp_all add: demo_stream_def)
  ultimately show ?thesis
    using loopRead_rejects [of ?c "[]" ?h "[5, 5]" "\<lambda>m t. (Ret None, t @ [m])" "\<lambda>m t. t @ [m]"
        "\<lambda>_. False" "[]"] bad by simp
qed

text \<open>A stream that ends inside a frame ends the loop with \<open>io.ErrUnexpectedEOF\<close> (or
  \<open>io.EOF\<close> when it ends right after the header); the cut message is not processed.\<close>

lemma loopRead_cut:
  assumes "concat (c_in c) = concat (map msg_frame ms) @ p" and "\<not> c_closed c" and "c_end c = IoEOF"
    and "\<And>m. m \<in> set ms \<Longrightarrow> valid_msg (fst m)"
    and "valid_msg m" and "strict_prefix p (msg_frame (m, q))" and "p \<noteq> []"
    and "\<And>m t. plug m t = (Ret None, upd m t)" and "\<And>t. \<not> dis t"
  shows "fst (loopRead dis plug c s) =
      Exited (if length p = 10 then IoEOF else IoErrUnexpectedEOF) \<and>
    snd (snd (loopRead dis plug c s)) = fold upd (map fst ms) s"
proof -
  have "parse_frame p IoEOF = PStop (if length p = 10 then IoEOF else IoErrUnexpectedEOF) []"
    using parse_frame_cut [OF assms(5,6), of IoEOF] assms(7)
    by (auto simp: short_err_def split: if_splits)
  then have "parse_stream (pending c) (fault c) =
      (map fst ms, if length p = 10 then IoEOF else IoErrUnexpectedEOF)"
    using parse_stream_frames [of ms p "c_end c"] assms(1-4)
    by (simp add: pending_def fault_def parse_stream_stop)
  then have "(case loopRead dis plug c s of (r, c', s') \<Rightarrow> (r, s')) =
      (Exited (if length p = 10 then IoEOF else IoErrUnexpectedEOF), fold upd (map fst ms) s)"
    by (simp add: loopRead_refines feed_fold [of plug upd dis, OF assms(8,9)])
  then show ?thesis by (auto simp: case_prod_beta)
qed

lemma loopRead_cut_witness:
  "fst (loopRead (\<lambda>_. False) (\<lambda>m t. (Ret None, t @ [m]))
     (demo_stream [take 11 (msg_frame (Msg 1001 [7, 8], 0))]) ([] :: msg list)) =
   Exited IoErrUnexpectedEOF"
proof -
  let ?p = "take 11 (msg_frame (Msg 1001 [7, 8], 0))"
  have len: "length (msg_frame (Msg 1001 [7, 8], 0)) = 12" by (simp add: msg_frame_def Msg_def)
  have "strict_prefix ?p (msg_frame (Msg 1001 [7, 8], 0))"
    using len by (auto simp: strict_prefix_def take_is_prefix dest: arg_cong [of _ _ length])
  moreover have "valid_msg (Msg 1001 [7, 8])"
    by (simp add: valid_msg_def Msg_def minID_def maxID_def)
  moreover have "?p \<noteq> []" "length ?p = 11" using len by auto
  ultimately show ?thesis
    using loopRead_cut [of "demo_stream [?p]" "[]" ?p "Msg 1001 [7, 8]" 0
        "\<lambda>m t. (Ret None, t @ [m])" "\<lambda>m t. t @ [m]" "\<lambda>_. False" "[]"]
    by (simp add: demo_stream_def)
qed

text \<open>C28: whatever arrives, the plugins only ever see messages with an identifier from 1000 to
  60000 and a body of at most 1048566 bytes, and only while the agent is enabled: a
  property of the gateway that processing such messages keeps is kept by the whole loop.\<close>

theorem loopRead_only_valid:
  assumes "P s"
    and "\<And>m t x t'. valid_msg m \<Longrightarrow> P t \<Longrightarrow> \<not> dis t \<Longrightarrow> plug m t = (x, t') \<Longrightarrow> P t'"
  shows "P (snd (snd (loopRead dis plug c s)))"
proof -
  obtain ms r where ps: "parse_stream (pending c) (fault c) = (ms, r)" by fastforce
  have valid: "valid_msg m" if "m \<in> set ms" for m
    using parse_stream_valid [of m "pending c" "fault c"] that ps by simp
  have "(case loopRead dis plug c s of (x, c', s') \<Rightarrow> (x, s')) = feed dis plug ms r s"
    using loopRead_refines [of dis plug c s] ps by simp
  then have "feed dis plug ms r s =
      (fst (loopRead dis plug c s), snd (snd (loopRead dis plug c s)))"
    by (simp add: case_prod_beta)
  from feed_only_parsed [OF this, of P] assms valid show ?thesis by blast
qed

theorem loopRead_only_valid_witness:
  "list_all valid_msg (snd (snd (loopRead (\<lambda>_. False) (\<lambda>m t. (Ret None, m # t))
     (demo_stream [[1, 2, 3]]) [])))"
  by (rule loopRead_only_valid) auto

end
