(* ===== verification/P99.thy ===== *)
theory P99
  imports Prelude "HOL-Library.AList" "HOL-Library.Multiset"
begin

text \<open>
  The latency histogram of \<open>src/pkg/metric/metric.go\<close>: \<open>P99\<close> counts samples per bucket,
  \<open>Out\<close> reads the 99th percentile, \<open>ProtoP99\<close> keeps one histogram per protocol. Counters
  are \<open>int\<close>: a collection empties them every ten seconds, far below \<open>2^63\<close>. A type
  assertion on a missing \<open>sync.Map\<close> entry panics, and so does the model.
\<close>

section \<open>P99\<close>

record p99 =
  p_count :: int
  p_datas :: "int \<rightharpoonup> int"
  p_buckets :: "int list"

definition Buckets :: "int list" where
  "Buckets = [1, 5, 10, 20, 50, 100, 150, 200, 250, 300, 400, 500, 1000, 2000, 5000, 10000,
     9999999999]"

definition NewP99 :: "int list \<Rightarrow> p99" where
  "NewP99 bs = \<lparr>p_count = 0, p_datas = foldl (\<lambda>d b. d(b \<mapsto> 0)) Map.empty bs, p_buckets = bs\<rparr>"

fun reset_loop :: "int list \<Rightarrow> (int \<rightharpoonup> int) \<Rightarrow> (int \<rightharpoonup> int) go" where
  "reset_loop [] d = Ret d"
| "reset_loop (b # bs) d =
     (case d b of
        None \<Rightarrow> Panic ''interface conversion''
      | Some _ \<Rightarrow> reset_loop bs (d(b \<mapsto> 0)))"

definition p99_Reset :: "p99 \<Rightarrow> p99 go" where
  "p99_Reset h =
     go_bind (reset_loop (p_buckets h) (p_datas h)) (\<lambda>d. Ret (h\<lparr>p_count := 0, p_datas := d\<rparr>))"

fun in_loop :: "int list \<Rightarrow> int \<Rightarrow> p99 \<Rightarrow> p99 go" where
  "in_loop [] i h = Ret h"
| "in_loop (b # bs) i h =
     (if i \<le> b
      then (case p_datas h b of
              None \<Rightarrow> Panic ''interface conversion''
            | Some n \<Rightarrow> Ret (h\<lparr>p_datas := (p_datas h)(b \<mapsto> n + 1), p_count := p_count h + 1\<rparr>))
      else in_loop bs i h)"

definition p99_In :: "int \<Rightarrow> p99 \<Rightarrow> p99 go" where
  "p99_In i h = in_loop (p_buckets h) i h"

text \<open>
  \<open>float64(sum)/float64(count) >= 0.99\<close> in IEEE double precision, for counts that convert
  exactly (below \<open>2^53\<close>): a quotient between 1/2 and 1 rounds to a multiple of
  \<open>2^(-53)\<close>, ties to even, and so does the literal. \<open>round_ratio a b\<close> is \<open>a/b\<close> rounded.
\<close>

definition round_ratio :: "int \<Rightarrow> int \<Rightarrow> int" where
  "round_ratio a b =
     (let q = a div b; r = a mod b
      in if 2 * r < b then q else if b < 2 * r then q + 1 else if even q then q else q + 1)"

definition f64_ge_099 :: "int \<Rightarrow> int \<Rightarrow> bool" where
  "f64_ge_099 acc cnt =
     (if 2 * acc < cnt then False
      else if cnt \<le> acc then True
      else round_ratio (99 * 2 ^ 53) 100 \<le> round_ratio (acc * 2 ^ 53) cnt)"

fun out_loop :: "int list \<Rightarrow> int \<Rightarrow> int \<Rightarrow> (int \<rightharpoonup> int) \<Rightarrow> int go" where
  "out_loop [] acc cnt d = Ret 0"
| "out_loop (b # bs) acc cnt d =
     (case d b of
        None \<Rightarrow> Panic ''interface conversion''
      | Some n \<Rightarrow> if f64_ge_099 (acc + n) cnt then Ret b else out_loop bs (acc + n) cnt d)"

definition p99_Out :: "p99 \<Rightarrow> int go" where
  "p99_Out h = (if p_count h = 0 then Ret 0 else out_loop (p_buckets h) 0 (p_count h) (p_datas h))"

section \<open>The floating-point test is exact\<close>

lemma round_ratio_bounds:
  assumes "0 < b"
  shows "2 * a - b \<le> 2 * b * round_ratio a b" and "2 * b * round_ratio a b \<le> 2 * a + b"
proof -
  define q r where "q = a div b" and "r = a mod b"
  have a: "a = b * q + r" and r: "0 \<le> r" "r < b"
    using assms by (simp_all add: q_def r_def)
  have "round_ratio a b =
      (if 2 * r < b then q else if b < 2 * r then q + 1 else if even q then q else q + 1)"
    by (simp add: round_ratio_def q_def r_def Let_def)
  then have "(round_ratio a b = q \<and> 2 * r \<le> b) \<or> (round_ratio a b = q + 1 \<and> b \<le> 2 * r)"
    by (auto split: if_splits)
  moreover have "2 * a = 2 * b * q + 2 * r" and "2 * b * (q + 1) = 2 * b * q + 2 * b"
    by (simp_all add: a algebra_simps)
  ultimately have "2 * a - b \<le> 2 * b * round_ratio a b \<and> 2 * b * round_ratio a b \<le> 2 * a + b"
    using r by (elim disjE conjE) (simp_all only:, linarith+)
  then show "2 * a - b \<le> 2 * b * round_ratio a b" and "2 * b * round_ratio a b \<le> 2 * a + b"
    by blast+
qed

lemma round_099: "round_ratio (99 * 2 ^ 53) 100 = 8917127262193582"
  by (simp add: round_ratio_def)

lemma f64_ge_099_exact:
  assumes "0 < cnt" and "cnt \<le> 2 ^ 46" and "0 \<le> acc"
  shows "f64_ge_099 acc cnt \<longleftrightarrow> 99 * cnt \<le> 100 * acc"
proof (cases "2 * acc < cnt \<or> cnt \<le> acc")
  case True
  then show ?thesis using assms by (auto simp: f64_ge_099_def)
next
  case False
  define r where "r = round_ratio (acc * 2 ^ 53) cnt"
  have lo: "2 * (acc * 2 ^ 53) - cnt \<le> 2 * cnt * r" and hi: "2 * cnt * r \<le> 2 * (acc * 2 ^ 53) + cnt"
    using round_ratio_bounds [OF assms(1), of "acc * 2 ^ 53"] unfolding r_def by blast+
  have "8917127262193582 \<le> r" if "99 * cnt \<le> 100 * acc"
  proof (rule ccontr)
    assume "\<not> 8917127262193582 \<le> r"
    then have "cnt * r \<le> cnt * 8917127262193581" using assms(1) by simp
    with lo that assms show False by simp
  qed
  moreover have "r < 8917127262193582" if "100 * acc < 99 * cnt"
  proof (rule ccontr)
    assume "\<not> r < 8917127262193582"
    then have "cnt * 8917127262193582 \<le> cnt * r" using assms(1) by simp
    with hi that assms show False by simp
  qed
  moreover have "f64_ge_099 acc cnt \<longleftrightarrow> 8917127262193582 \<le> r"
    using False unfolding f64_ge_099_def round_099 r_def by simp
  ultimately show ?thesis by linarith
qed

section \<open>What a histogram represents\<close>

text \<open>
  A histogram stands for the samples it was given since it was made or reset: a sample
  counts for the first bucket that is not below it, one above every bucket is not counted.
\<close>

definition bucket_of :: "int list \<Rightarrow> int \<Rightarrow> int option" where
  "bucket_of bs x = find (\<lambda>b. x \<le> b) bs"

definition hist_rep :: "int list \<Rightarrow> int list \<Rightarrow> p99 \<Rightarrow> bool" where
  "hist_rep bs xs h \<longleftrightarrow>
     p_buckets h = bs \<and>
     p_count h = int (length (filter (\<lambda>x. bucket_of bs x \<noteq> None) xs)) \<and>
     p_datas h = (\<lambda>b. if b \<in> set bs
       then Some (int (length (filter (\<lambda>x. bucket_of bs x = Some b) xs))) else None)"

datatype hist_op = HIn int | HReset

primrec hist_aop :: "hist_op \<Rightarrow> int list \<Rightarrow> int list" where
  "hist_aop (HIn x) xs = xs @ [x]"
| "hist_aop HReset xs = []"

primrec hist_cop :: "hist_op \<Rightarrow> p99 \<Rightarrow> p99 go" where
  "hist_cop (HIn x) h = p99_In x h"
| "hist_cop HReset h = p99_Reset h"

lemma hist_rep_New: "hist_rep bs [] (NewP99 bs)"
proof -
  have "foldl (\<lambda>d b. d(b \<mapsto> 0)) d bs = (\<lambda>b. if b \<in> set bs then Some 0 else d b)"
    for d :: "int \<rightharpoonup> int"
    by (induction bs arbitrary: d) auto
  then show ?thesis by (auto simp: hist_rep_def NewP99_def fun_eq_iff)
qed

lemma in_loop_find:
  "in_loop bs i h =
     (case find (\<lambda>b. i \<le> b) bs of None \<Rightarrow> Ret h
      | Some b \<Rightarrow> (case p_datas h b of
                     None \<Rightarrow> Panic ''interface conversion''
                   | Some n \<Rightarrow> Ret (h\<lparr>p_datas := (p_datas h)(b \<mapsto> n + 1), p_count := p_count h + 1\<rparr>)))"
  by (induction bs) auto

lemma hist_rep_In:
  assumes "hist_rep bs xs h"
  shows "\<exists>h'. p99_In i h = Ret h' \<and> hist_rep bs (xs @ [i]) h'"
proof (cases "bucket_of bs i")
  case None
  then show ?thesis
    using assms by (auto simp: p99_In_def in_loop_find hist_rep_def bucket_of_def)
next
  case (Some b)
  then have "b \<in> set bs" by (auto simp: bucket_of_def find_Some_iff)
  with Some show ?thesis
    using assms by (auto simp: p99_In_def in_loop_find hist_rep_def bucket_of_def)
qed

lemma reset_loop_all:
  "set bs \<subseteq> dom d \<Longrightarrow> reset_loop bs d = Ret (\<lambda>b. if b \<in> set bs then Some 0 else d b)"
proof (induction bs arbitrary: d)
  case Nil
  then show ?case by simp
next
  case (Cons b bs)
  then obtain n where n: "d b = Some n" by auto
  have dom: "set bs \<subseteq> dom (d(b \<mapsto> 0))" using Cons.prems by auto
  have "(\<lambda>a. if a \<in> set bs then Some 0 else (d(b \<mapsto> 0)) a) =
      (\<lambda>a. if a \<in> set (b # bs) then Some 0 else d a)"
    by (auto simp: fun_eq_iff)
  with Cons.IH [OF dom] n show ?case by (simp only: reset_loop.simps option.case)
qed

lemma hist_rep_Reset:
  assumes "hist_rep bs xs h"
  shows "\<exists>h'. p99_Reset h = Ret h' \<and> hist_rep bs [] h'"
proof -
  have "set bs \<subseteq> dom (p_datas h)" using assms by (auto simp: hist_rep_def)
  then show ?thesis
    using assms by (auto simp: p99_Reset_def hist_rep_def reset_loop_all)
qed

interpretation hist: op_refinement "hist_rep bs" hist_aop hist_cop
proof
  fix xs h x
  assume "hist_rep bs xs h"
  then show "\<exists>h'. hist_cop x h = Ret h' \<and> hist_rep bs (hist_aop x xs) h'"
    by (cases x) (simp_all add: hist_rep_In hist_rep_Reset)
qed

section \<open>The percentile\<close>

definition le_count :: "int list \<Rightarrow> int \<Rightarrow> int" where
  "le_count xs b = int (length (filter (\<lambda>x. x \<le> b) xs))"

definition below_some :: "int list \<Rightarrow> int list \<Rightarrow> int" where
  "below_some pre xs = int (length (filter (\<lambda>x. \<exists>b \<in> set pre. x \<le> b) xs))"

lemma find_in_set: "find P xs = Some x \<Longrightarrow> x \<in> set xs"
  by (auto simp: find_Some_iff)

lemma below_some_snoc:
  assumes "sorted_wrt (<) (pre @ b # suf)"
  shows "below_some (pre @ [b]) xs =
    below_some pre xs + int (length (filter (\<lambda>x. bucket_of (pre @ b # suf) x = Some b) xs))"
    and "below_some (pre @ [b]) xs = le_count xs b"
proof -
  have less: "\<forall>b' \<in> set pre. b' < b" using assms by (simp add: sorted_wrt_append)
  have find: "bucket_of (pre @ b # suf) x = Some b \<longleftrightarrow> (\<forall>b' \<in> set pre. \<not> x \<le> b') \<and> x \<le> b" for x
    using assms less
    by (induction pre) (auto simp: bucket_of_def dest: find_in_set)
  show "below_some (pre @ [b]) xs =
      below_some pre xs + int (length (filter (\<lambda>x. bucket_of (pre @ b # suf) x = Some b) xs))"
    unfolding below_some_def find by (induction xs) auto
  have "(\<exists>b' \<in> set (pre @ [b]). x \<le> b') \<longleftrightarrow> x \<le> b" for x
    using less by force
  then show "below_some (pre @ [b]) xs = le_count xs b"
    by (simp add: below_some_def le_count_def)
qed

lemma out_loop_find:
  assumes "hist_rep bs xs h" and "bs = pre @ suf" and "sorted_wrt (<) bs"
    and "0 < cnt" and "cnt \<le> 2 ^ 46"
  shows "out_loop suf (below_some pre xs) cnt (p_datas h) =
    Ret (case find (\<lambda>b. 99 * cnt \<le> 100 * le_count xs b) suf of Some b \<Rightarrow> b | None \<Rightarrow> 0)"
  using assms
proof (induction suf arbitrary: pre)
  case Nil
  then show ?case by simp
next
  case (Cons b suf)
  have sorted: "sorted_wrt (<) (pre @ b # suf)" and bs: "bs = pre @ b # suf"
    using Cons.prems(2,3) by simp_all
  have d: "p_datas h b = Some (int (length (filter (\<lambda>x. bucket_of bs x = Some b) xs)))"
    using Cons.prems(1) bs by (simp add: hist_rep_def)
  have sum: "below_some pre xs + int (length (filter (\<lambda>x. bucket_of bs x = Some b) xs)) =
      le_count xs b" and snoc: "below_some (pre @ [b]) xs = le_count xs b"
    using below_some_snoc [OF sorted, of xs] bs by simp_all
  have ge: "f64_ge_099 (le_count xs b) cnt \<longleftrightarrow> 99 * cnt \<le> 100 * le_count xs b"
    using Cons.prems(4,5) by (intro f64_ge_099_exact) (simp_all add: le_count_def)
  have "out_loop suf (le_count xs b) cnt (p_datas h) =
      Ret (case find (\<lambda>b. 99 * cnt \<le> 100 * le_count xs b) suf of Some b \<Rightarrow> b | None \<Rightarrow> 0)"
    using Cons.IH [of "pre @ [b]"] Cons.prems bs snoc by simp
  with d sum ge show ?case by simp
qed

lemma p99_Out_find:
  assumes "hist_rep bs xs h" and "sorted_wrt (<) bs" and "p_count h \<le> 2 ^ 46"
  shows "p99_Out h = Ret (if p_count h = 0 then 0 else
    case find (\<lambda>b. 99 * p_count h \<le> 100 * le_count xs b) bs of Some b \<Rightarrow> b | None \<Rightarrow> 0)"
proof (cases "p_count h = 0")
  case False
  then have "0 < p_count h" using assms(1) by (simp add: hist_rep_def)
  with out_loop_find [OF assms(1) _ assms(2) this assms(3), of "[]" bs] False assms(1)
  show ?thesis by (simp add: p99_Out_def hist_rep_def below_some_def)
qed (simp add: p99_Out_def)

section \<open>One histogram per protocol\<close>

text \<open>
  \<open>ProtoP99\<close> is a \<open>sync.Map\<close> from protocol names to histograms: an association list,
  \<open>Range\<close> walks it.
\<close>

type_synonym proto_p99 = "(string \<times> p99) list"

definition proto_In :: "string \<Rightarrow> int \<Rightarrow> proto_p99 \<Rightarrow> proto_p99 go" where
  "proto_In proto x pp =
     (let v = (case map_of pp proto of Some v \<Rightarrow> v | None \<Rightarrow> NewP99 Buckets)
      in go_bind (p99_In x v) (\<lambda>v. Ret (AList.update proto v pp)))"

fun proto_Out :: "proto_p99 \<Rightarrow> (string \<times> int) list go" where
  "proto_Out [] = Ret []"
| "proto_Out ((k, v) # pp) =
     go_bind (p99_Out v) (\<lambda>x. go_bind (proto_Out pp) (\<lambda>r.
       Ret (if 0 < x then (k, x) # r else r)))"

fun proto_Reset :: "proto_p99 \<Rightarrow> proto_p99 go" where
  "proto_Reset [] = Ret []"
| "proto_Reset ((k, v) # pp) =
     go_bind (p99_Reset v) (\<lambda>v. go_bind (proto_Reset pp) (\<lambda>r. Ret ((k, v) # r)))"

text \<open>
  It stands for the samples of each protocol that has been seen: \<open>None\<close> for a protocol
  never seen.
\<close>

definition proto_rep :: "(string \<Rightarrow> int list option) \<Rightarrow> proto_p99 \<Rightarrow> bool" where
  "proto_rep a pp \<longleftrightarrow> distinct (map fst pp) \<and>
     (\<forall>k. rel_option (hist_rep Buckets) (a k) (map_of pp k))"

lemma proto_repD: "proto_rep a pp \<Longrightarrow> rel_option (hist_rep Buckets) (a k) (map_of pp k)"
  by (simp add: proto_rep_def)

datatype proto_op = PIn string int | PReset

primrec proto_aop :: "proto_op \<Rightarrow> (string \<Rightarrow> int list option) \<Rightarrow> (string \<Rightarrow> int list option)" where
  "proto_aop (PIn k x) a = a(k := Some ((case a k of Some xs \<Rightarrow> xs | None \<Rightarrow> []) @ [x]))"
| "proto_aop PReset a = (\<lambda>k. map_option (\<lambda>_. []) (a k))"

primrec proto_cop :: "proto_op \<Rightarrow> proto_p99 \<Rightarrow> proto_p99 go" where
  "proto_cop (PIn k x) pp = proto_In k x pp"
| "proto_cop PReset pp = proto_Reset pp"

lemma proto_rep_In:
  assumes "proto_rep a pp"
  shows "\<exists>pp'. proto_In k x pp = Ret pp' \<and> proto_rep (proto_aop (PIn k x) a) pp'"
proof -
  define h where "h = (case map_of pp k of Some v \<Rightarrow> v | None \<Rightarrow> NewP99 Buckets)"
  define xs where "xs = (case a k of Some xs \<Rightarrow> xs | None \<Rightarrow> [])"
  have "hist_rep Buckets xs h"
    using proto_repD [OF assms, of k]
    by (cases "a k"; cases "map_of pp k") (simp_all add: h_def xs_def hist_rep_New)
  from hist_rep_In [OF this, of x] obtain h' where "p99_In x h = Ret h'"
    and h': "hist_rep Buckets (xs @ [x]) h'" by blast
  then have "proto_In k x pp = Ret (AList.update k h' pp)"
    by (simp add: proto_In_def h_def)
  moreover have "proto_rep (proto_aop (PIn k x) a) (AList.update k h' pp)"
    using assms h' by (auto simp: proto_rep_def update_conv' distinct_update xs_def)
  ultimately show ?thesis by blast
qed

lemma proto_Reset_list:
  assumes "\<And>k h. (k, h) \<in> set pp \<Longrightarrow> \<exists>xs. hist_rep Buckets xs h"
  shows "\<exists>pp'. proto_Reset pp = Ret pp' \<and> map fst pp' = map fst pp \<and>
    (\<forall>k. rel_option (\<lambda>_. hist_rep Buckets []) (map_of pp k) (map_of pp' k))"
  using assms
proof (induction pp)
  case Nil
  then show ?case by simp
next
  case (Cons kv pp)
  obtain k h where kv: "kv = (k, h)" by fastforce
  with Cons.prems obtain xs where "hist_rep Buckets xs h" by auto
  from hist_rep_Reset [OF this] obtain h' where "p99_Reset h = Ret h'" "hist_rep Buckets [] h'"
    by blast
  moreover from Cons obtain pp' where "proto_Reset pp = Ret pp'" "map fst pp' = map fst pp"
    "\<forall>k. rel_option (\<lambda>_. hist_rep Buckets []) (map_of pp k) (map_of pp' k)"
    by (metis list.set_intros(2))
  ultimately show ?case by (simp add: kv)
qed

lemma proto_rep_Reset:
  assumes "proto_rep a pp"
  shows "\<exists>pp'. proto_Reset pp = Ret pp' \<and> proto_rep (proto_aop PReset a) pp'"
proof -
  have stored: "\<exists>xs. hist_rep Buckets xs h" if "(k, h) \<in> set pp" for k h
  proof -
    have "map_of pp k = Some h" using assms that by (simp add: proto_rep_def)
    with proto_repD [OF assms, of k] show ?thesis by (cases "a k") auto
  qed
  obtain pp' where r: "proto_Reset pp = Ret pp'" and keys: "map fst pp' = map fst pp"
    and rel: "\<And>k. rel_option (\<lambda>_. hist_rep Buckets []) (map_of pp k) (map_of pp' k)"
    using proto_Reset_list [of pp] stored by blast
  have "rel_option (hist_rep Buckets) (proto_aop PReset a k) (map_of pp' k)" for k
    using rel [of k] proto_repD [OF assms, of k]
    by (cases "a k"; cases "map_of pp k"; cases "map_of pp' k") auto
  with r keys assms show ?thesis by (auto simp: proto_rep_def)
qed

interpretation proto: op_refinement proto_rep proto_aop proto_cop
proof
  fix a pp x
  assume "proto_rep a pp"
  then show "\<exists>pp'. proto_cop x pp = Ret pp' \<and> proto_rep (proto_aop x a) pp'"
    by (cases x) (simp_all add: proto_rep_In proto_rep_Reset del: proto_aop.simps)
qed

end
