(* ===== verification/Metric.thy ===== *)
theory Metric
  imports P99
begin

text \<open>
  The counters of \<open>src/pkg/metric/metric.go\<close>: the package variables as one record, the
  runtime sampling, the periodic collection and its reset. The text of the report is kept
  as a record of the values it prints; the clock readings it starts with are left out.
\<close>

section \<open>State\<close>

record metric_data =
  d_connection :: int
  d_public_tcp_qps :: int
  d_private_http_qps :: int
  d_goroutine :: u64
  d_free :: u64
  d_released :: u64
  d_stack :: u64
  d_unused :: u64
  d_total :: u64
  d_objects :: u64
  d_tcp_status :: "(string \<times> int) list"
  d_public_p99 :: "(string \<times> int) list"
  d_private_p99 :: "(string \<times> int) list"

record metrics =
  CountConnection :: int
  CountPublicTCPRequest :: int
  CountPublicHTTPRequest :: int
  CountPrivateHTTPRequest :: int
  CountGoroutine :: u64
  CountFreeMemory :: u64
  CountReleasedMemory :: u64
  CountStackMemory :: u64
  CountUnusedMemory :: u64
  CountTotalMemory :: u64
  CountObjectsMemory :: u64
  P99PublicHTTPRequestLatency :: proto_p99
  P99PrivateHTTPRequestLatency :: proto_p99
  lastTCPStatus :: "(string \<times> int) list"
  Data :: "metric_data option"

definition metrics_init :: metrics where
  "metrics_init = \<lparr>CountConnection = 0, CountPublicTCPRequest = 0, CountPublicHTTPRequest = 0,
     CountPrivateHTTPRequest = 0, CountGoroutine = 0, CountFreeMemory = 0,
     CountReleasedMemory = 0, CountStackMemory = 0, CountUnusedMemory = 0, CountTotalMemory = 0,
     CountObjectsMemory = 0, P99PublicHTTPRequestLatency = [],
     P99PrivateHTTPRequestLatency = [], lastTCPStatus = [], Data = None\<rparr>"

section \<open>Runtime samples\<close>

text \<open>
  What \<open>metrics.Read\<close> puts into a sample: nothing for an unknown name, a 64-bit counter,
  or something else. The samples come in the order of the names asked for.
\<close>

datatype sample = KindBad | KindUint64 u64 | KindOther

definition store_sample :: "nat \<Rightarrow> sample \<Rightarrow> metrics \<Rightarrow> metrics" where
  "store_sample index v m =
     (case v of
        KindBad \<Rightarrow> m
      | KindOther \<Rightarrow> m
      | KindUint64 x \<Rightarrow>
          if index = 0 then m\<lparr>CountGoroutine := x\<rparr>
          else if index = 1 then m\<lparr>CountFreeMemory := x\<rparr>
          else if index = 2 then m\<lparr>CountReleasedMemory := x\<rparr>
          else if index = 3 then m\<lparr>CountStackMemory := x\<rparr>
          else if index = 4 then m\<lparr>CountUnusedMemory := x\<rparr>
          else if index = 5 then m\<lparr>CountTotalMemory := x\<rparr>
          else if index = 6 then m\<lparr>CountObjectsMemory := x\<rparr>
          else m)"

fun store_samples :: "nat \<Rightarrow> sample list \<Rightarrow> metrics \<Rightarrow> metrics" where
  "store_samples index [] m = m"
| "store_samples index (v # vs) m = store_samples (Suc index) vs (store_sample index v m)"

text \<open>The seven names of \<open>metricsList\<close>, in its order; \<open>read\<close> is \<open>metrics.Read\<close>.\<close>

definition metricsList :: "string list" where
  "metricsList =
     [''/sched/goroutines:goroutines'',
      ''/memory/classes/heap/free:bytes'',
      ''/memory/classes/heap/released:bytes'',
      ''/memory/classes/heap/stacks:bytes'',
      ''/memory/classes/heap/unused:bytes'',
      ''/memory/classes/total:bytes'',
      ''/memory/classes/heap/objects:bytes'']"

definition getRuntume :: "(string \<Rightarrow> sample) \<Rightarrow> metrics \<Rightarrow> metrics" where
  "getRuntume read m = store_samples 0 (map read metricsList) m"

section \<open>TCP states\<close>

text \<open>
  \<open>getTcpStatus\<close> on the output of \<open>ss -t -a\<close> (\<open>None\<close>: the command failed):
  \<open>strings.Split\<close> at newlines, \<open>strings.Contains\<close>, \<open>strings.Fields\<close>.
\<close>

fun split_lines :: "string \<Rightarrow> string list" where
  "split_lines [] = [[]]"
| "split_lines (c # cs) =
     (if c = CHR 0x0A then [] # split_lines cs
      else case split_lines cs of [] \<Rightarrow> [[c]] | l # ls \<Rightarrow> (c # l) # ls)"

text \<open>The first field of a line: the longest run without white space after leading spaces.\<close>

fun until_space :: "string \<Rightarrow> string" where
  "until_space [] = []"
| "until_space (c # cs) =
     (if match_seq space_seqs (c # cs) \<noteq> None then [] else c # until_space cs)"

definition first_field :: "string \<Rightarrow> string option" where
  "first_field line =
     (let s = drop_seqs space_seqs line in if s = [] then None else Some (until_space s))"

fun tcp_loop :: "string list \<Rightarrow> (string \<times> int) list \<Rightarrow> (string \<times> int) list" where
  "tcp_loop [] cnt = cnt"
| "tcp_loop (line # lines) cnt =
     (if trim_space line = [] \<or> sublist ''State'' line then tcp_loop lines cnt
      else case first_field line of
             None \<Rightarrow> tcp_loop lines cnt
           | Some st \<Rightarrow>
               tcp_loop lines
                 (AList.update st ((case map_of cnt st of Some n \<Rightarrow> n | None \<Rightarrow> 0) + 1) cnt))"

definition getTcpStatus :: "string option \<Rightarrow> (string \<times> int) list" where
  "getTcpStatus out = (case out of None \<Rightarrow> [] | Some s \<Rightarrow> tcp_loop (split_lines s) [])"

section \<open>Reset and collect\<close>

definition metrics_reset :: "metrics \<Rightarrow> metrics go" where
  "metrics_reset m =
     (let m = m\<lparr>CountPublicTCPRequest := 0, CountPrivateHTTPRequest := 0, CountGoroutine := 0,
                CountFreeMemory := 0, CountReleasedMemory := 0, CountStackMemory := 0,
                CountUnusedMemory := 0, CountTotalMemory := 0, CountObjectsMemory := 0\<rparr>
      in go_bind (proto_Reset (P99PublicHTTPRequestLatency m)) (\<lambda>p.
         go_bind (proto_Reset (P99PrivateHTTPRequestLatency m)) (\<lambda>q.
           Ret (m\<lparr>P99PublicHTTPRequestLatency := p, P99PrivateHTTPRequestLatency := q\<rparr>))))"

text \<open>Go's integer division truncates towards zero and panics on a zero divisor.\<close>

definition go_div :: "int \<Rightarrow> int \<Rightarrow> int go" where
  "go_div a b =
     (if b = 0 then Panic ''integer divide by zero'' else Ret (sgn a * sgn b * (\<bar>a\<bar> div \<bar>b\<bar>)))"

definition collect :: "(string \<Rightarrow> sample) \<Rightarrow> int \<Rightarrow> metrics \<Rightarrow> metrics go" where
  "collect read interval m =
     (let m = getRuntume read m
      in go_bind (go_div (CountPublicTCPRequest m) interval) (\<lambda>tcp.
         go_bind (go_div (CountPrivateHTTPRequest m) interval) (\<lambda>http.
         go_bind (proto_Out (P99PublicHTTPRequestLatency m)) (\<lambda>pub.
         go_bind (proto_Out (P99PrivateHTTPRequestLatency m)) (\<lambda>priv.
           metrics_reset
             (m\<lparr>Data := Some
                \<lparr>d_connection = CountConnection m, d_public_tcp_qps = tcp,
                 d_private_http_qps = http, d_goroutine = CountGoroutine m,
                 d_free = CountFreeMemory m, d_released = CountReleasedMemory m,
                 d_stack = CountStackMemory m, d_unused = CountUnusedMemory m,
                 d_total = CountTotalMemory m, d_objects = CountObjectsMemory m,
                 d_tcp_status = lastTCPStatus m, d_public_p99 = pub, d_private_p99 = priv\<rparr>\<rparr>))))))"

section \<open>The metrics invariant\<close>

definition metrics_ok :: "metrics \<Rightarrow> bool" where
  "metrics_ok m \<longleftrightarrow>
     (\<exists>a. proto_rep a (P99PublicHTTPRequestLatency m)) \<and>
     (\<exists>a. proto_rep a (P99PrivateHTTPRequestLatency m)) \<and>
     0 \<le> CountPublicTCPRequest m \<and> 0 \<le> CountPrivateHTTPRequest m"

lemma proto_rep_Nil: "proto_rep (\<lambda>_. None) []"
  by (simp add: proto_rep_def)

lemma metrics_ok_init: "metrics_ok metrics_init"
  using proto_rep_Nil by (auto simp: metrics_ok_def metrics_init_def)

text \<open>Reading a wellformed histogram never panics.\<close>

lemma out_loop_Ret:
  "set bs \<subseteq> dom d \<Longrightarrow> \<exists>x. out_loop bs acc cnt d = Ret x"
  by (induction bs arbitrary: acc) auto

lemma p99_Out_Ret: "hist_rep bs xs h \<Longrightarrow> \<exists>x. p99_Out h = Ret x"
  by (auto simp: p99_Out_def hist_rep_def intro!: out_loop_Ret)

lemma proto_Out_Ret:
  "(\<And>k h. (k, h) \<in> set pp \<Longrightarrow> \<exists>xs. hist_rep Buckets xs h) \<Longrightarrow> \<exists>r. proto_Out pp = Ret r"
proof (induction pp)
  case Nil
  then show ?case by simp
next
  case (Cons kv pp)
  obtain k h where kv: "kv = (k, h)" by fastforce
  from Cons.prems kv obtain xs where "hist_rep Buckets xs h" by auto
  from p99_Out_Ret [OF this] obtain x where "p99_Out h = Ret x" by blast
  moreover from Cons obtain r where "proto_Out pp = Ret r" by auto
  ultimately show ?case by (simp add: kv)
qed

lemma proto_rep_stored:
  assumes "proto_rep a pp" and "(k, h) \<in> set pp"
  shows "\<exists>xs. hist_rep Buckets xs h"
proof -
  have "map_of pp k = Some h" using assms by (simp add: proto_rep_def)
  with proto_repD [OF assms(1), of k] show ?thesis by (cases "a k") auto
qed

end
