(* ===== verification/Agent.thy ===== *)
theory Agent
  imports Agent_Read Metric
begin

text \<open>
  The agent of \<open>src/pkg/agent/agent.go\<close> (one TCP client) and the state it shares with the
  plugin chain: its record, its small operations, \<open>Write\<close>, and the effects that its
  goroutines have outside it (alerts, requests to the backend, spawned goroutines, time).
\<close>

section \<open>State\<close>

text \<open>
  \<open>storage\<close> is a \<open>sync.Map\<close> whose values have any type; the gateway stores pointers to
  atomic counters in it, each under one key and never copied, so the model keeps the
  counter itself. \<open>a_w\<close> is the writer, whose sink is the connection the agent reads
  from; \<open>a_wd\<close> is how many wake-up tokens the channel \<open>wd\<close> (capacity five) holds;
  \<open>a_done\<close> tells that the context is cancelled.
\<close>

datatype any = AtomicInt32 "32 word" | AtomicUint32 "32 word" | AnyOther string

record agent =
  a_cid :: string
  a_address :: string
  a_disable :: bool
  a_storage :: "string \<rightharpoonup> any"
  a_w :: "conn writer"
  a_wd :: nat
  a_done :: bool

definition agent_New :: "conn \<Rightarrow> string \<Rightarrow> string \<Rightarrow> agent" where
  "agent_New c address uid =
     \<lparr>a_cid = uid, a_address = address, a_disable = False, a_storage = Map.empty,
      a_w = writer_New c, a_wd = 0, a_done = False\<rparr>"

definition wdCap :: nat where "wdCap = 5"

section \<open>Small operations\<close>

definition agent_Close :: "agent \<Rightarrow> agent" where
  "agent_Close a = a\<lparr>a_done := True\<rparr>"

definition agent_Disable :: "agent \<Rightarrow> agent" where
  "agent_Disable a = a\<lparr>a_disable := True\<rparr>"

definition agent_Enable :: "agent \<Rightarrow> agent" where
  "agent_Enable a = a\<lparr>a_disable := False\<rparr>"

definition agent_Get :: "string \<Rightarrow> agent \<Rightarrow> any option" where
  "agent_Get key a = a_storage a key"

definition agent_Set :: "string \<Rightarrow> any \<Rightarrow> agent \<Rightarrow> agent" where
  "agent_Set key v a = a\<lparr>a_storage := (a_storage a)(key \<mapsto> v)\<rparr>"

definition conn_of :: "agent \<Rightarrow> conn" where
  "conn_of a = w_w (a_w a)"

definition set_conn :: "conn \<Rightarrow> agent \<Rightarrow> agent" where
  "set_conn c a = a\<lparr>a_w := (a_w a)\<lparr>w_w := c\<rparr>\<rparr>"

section \<open>Write\<close>

text \<open>
  First the frame is appended to the writer's buffer, then a token is sent to wake the
  write loop. The \<open>select\<close> gives up when its 5 ms ticker fires: always when the channel
  stays full, and also when it has already fired by the time the \<open>select\<close> runs and is
  picked (\<open>late\<close>). Either way the call succeeds.
\<close>

definition agent_notify :: "bool \<Rightarrow> agent \<Rightarrow> agent" where
  "agent_notify late a =
     (if late \<or> wdCap \<le> a_wd a then a else a\<lparr>a_wd := a_wd a + 1\<rparr>)"

definition agent_Write ::
  "(nat \<Rightarrow> nat \<Rightarrow> nat) \<Rightarrow> bool \<Rightarrow> u16 \<Rightarrow> bytes \<Rightarrow> agent \<Rightarrow> goerr option \<times> agent" where
  "agent_Write grow late msgID body a =
     (case writer_Write grow msgID body 0 (a_w a) of
        (Some e, w) \<Rightarrow> (Some e, a\<lparr>a_w := w\<rparr>)
      | (None, w) \<Rightarrow> (None, agent_notify late (a\<lparr>a_w := w\<rparr>)))"

lemma agent_Write_ok:
  "w_err (a_w a) = None \<Longrightarrow>
     fst (agent_Write grow late i b a) = None \<and>
     w_b (a_w (snd (agent_Write grow late i b a))) = w_b (a_w a) @ frame i b 0 \<and>
     w_err (a_w (snd (agent_Write grow late i b a))) = None"
  by (auto simp: agent_Write_def writer_Write_def agent_notify_def frame_buf_frame Let_def)

lemma agent_Write_err:
  "w_err (a_w a) = Some e \<Longrightarrow> agent_Write grow late i b a = (Some e, a)"
  by (simp add: agent_Write_def writer_Write_def)

text \<open>What \<open>Write\<close> leaves alone.\<close>

lemma agent_Write_frame [simp]:
  "a_cid (snd (agent_Write grow late i b a)) = a_cid a"
  "a_address (snd (agent_Write grow late i b a)) = a_address a"
  "a_disable (snd (agent_Write grow late i b a)) = a_disable a"
  "a_storage (snd (agent_Write grow late i b a)) = a_storage a"
  "a_done (snd (agent_Write grow late i b a)) = a_done a"
  "conn_of (snd (agent_Write grow late i b a)) = conn_of a"
  by (auto simp: agent_Write_def agent_notify_def writer_Write_def conn_of_def Let_def
      split: prod.splits option.splits)

section \<open>Effects around an agent\<close>

text \<open>
  The alerts the gateway sends (\<open>utils.AlertAuto\<close> and friends), by their kind and the
  values their text shows.
\<close>

datatype alert =
    SpeedLimit string string                 \<comment> \<open>connection id, address\<close>
  | PublicPanic string string msg string     \<comment> \<open>id, address, message, panic\<close>
  | PublicError string string goerr msg
  | PublicSlow string string msg int
  | AgentPanic string string string
  | LoopReadExit string string goerr
  | LoopWriteExit string string goerr
  | AddAgentFail string goerr
  | UnknownPath string string
  | PrivateSlow string string int
  | PrivatePanic string string

text \<open>The message exchanged with the backend service, and the HTTP request around it.\<close>

record lua_msg =
  SequenceID :: u32
  ServerID :: string
  ConnID :: string
  MsgID :: u16
  Bytes :: string

record http_req =
  r_url :: string
  r_proto_type :: string
  r_msg_id :: string
  r_msg :: lua_msg
  r_real_ip :: string
  r_secret :: string

text \<open>
  What one agent's goroutines work on: the agent, the shared metrics, the alerts and the
  backend requests so far, the clock (nanoseconds), and the messages for which a goroutine
  has been spawned and not yet run.
\<close>

record gst =
  g_agent :: agent
  g_met :: metrics
  g_alerts :: "alert list"
  g_reqs :: "http_req list"
  g_clock :: int
  g_jobs :: "msg list"

definition on_agent :: "(agent \<Rightarrow> agent) \<Rightarrow> gst \<Rightarrow> gst" where
  "on_agent f g = g\<lparr>g_agent := f (g_agent g)\<rparr>"

definition on_met :: "(metrics \<Rightarrow> metrics) \<Rightarrow> gst \<Rightarrow> gst" where
  "on_met f g = g\<lparr>g_met := f (g_met g)\<rparr>"

definition AlertAuto :: "alert \<Rightarrow> gst \<Rightarrow> gst" where
  "AlertAuto x g = g\<lparr>g_alerts := g_alerts g @ [x]\<rparr>"

lemma gst_frame [simp]:
  "g_agent (on_agent f g) = f (g_agent g)" "g_met (on_agent f g) = g_met g"
  "g_alerts (on_agent f g) = g_alerts g" "g_reqs (on_agent f g) = g_reqs g"
  "g_clock (on_agent f g) = g_clock g" "g_jobs (on_agent f g) = g_jobs g"
  "g_met (on_met h g) = h (g_met g)" "g_agent (on_met h g) = g_agent g"
  "g_alerts (on_met h g) = g_alerts g" "g_reqs (on_met h g) = g_reqs g"
  "g_clock (on_met h g) = g_clock g" "g_jobs (on_met h g) = g_jobs g"
  "g_alerts (AlertAuto x g) = g_alerts g @ [x]" "g_agent (AlertAuto x g) = g_agent g"
  "g_met (AlertAuto x g) = g_met g" "g_reqs (AlertAuto x g) = g_reqs g"
  "g_clock (AlertAuto x g) = g_clock g" "g_jobs (AlertAuto x g) = g_jobs g"
  by (simp_all add: on_agent_def on_met_def AlertAuto_def)

end
