(* ===== verification/Base64.thy ===== *)
theory Base64
  imports Prelude
begin

text \<open>
  \<open>encoding/base64\<close>'s \<open>StdEncoding\<close>, as the gateway uses it for message bodies on both
  sides of the backend: \<open>EncodeToString\<close>, and \<open>DecodeString\<close> with the bytes it returns
  when the text is corrupt (the callers drop the error and use them). The result of
  decoding is the bytes and whether there was an error.
\<close>

definition b64_char :: "nat \<Rightarrow> char" where
  "b64_char n =
     (if n < 26 then char_of (65 + n)
      else if n < 52 then char_of (71 + n)
      else if n < 62 then char_of (n - 4)
      else if n = 62 then CHR ''+'' else CHR ''/'')"

definition b64_value :: "char \<Rightarrow> nat option" where
  "b64_value c =
     (let n = of_char c :: nat
      in if 65 \<le> n \<and> n \<le> 90 then Some (n - 65)
         else if 97 \<le> n \<and> n \<le> 122 then Some (n - 71)
         else if 48 \<le> n \<and> n \<le> 57 then Some (n + 4)
         else if n = 43 then Some 62
         else if n = 47 then Some 63
         else None)"

fun b64_encode :: "bytes \<Rightarrow> string" where
  "b64_encode [] = []"
| "b64_encode [a] =
     [b64_char (unat a div 4), b64_char (unat a mod 4 * 16), CHR ''='', CHR ''='']"
| "b64_encode [a, b] =
     [b64_char (unat a div 4), b64_char (unat a mod 4 * 16 + unat b div 16),
      b64_char (unat b mod 16 * 4), CHR ''='']"
| "b64_encode (a # b # c # r) =
     b64_char (unat a div 4) # b64_char (unat a mod 4 * 16 + unat b div 16) #
     b64_char (unat b mod 16 * 4 + unat c div 64) # b64_char (unat c mod 64) # b64_encode r"

definition b64_join :: "nat list \<Rightarrow> bytes" where
  "b64_join vs =
     (case vs of
        [s, t] \<Rightarrow> [word_of_nat (s * 4 + t div 16)]
      | [s, t, u] \<Rightarrow> [word_of_nat (s * 4 + t div 16), word_of_nat (t mod 16 * 16 + u div 4)]
      | [s, t, u, v] \<Rightarrow>
          [word_of_nat (s * 4 + t div 16), word_of_nat (t mod 16 * 16 + u div 4),
           word_of_nat (u mod 4 * 64 + v)]
      | _ \<Rightarrow> [])"

definition is_nl :: "char \<Rightarrow> bool" where
  "is_nl c \<longleftrightarrow> c = CHR 0x0A \<or> c = CHR 0x0D"

text \<open>
  One quantum of four characters (\<open>decodeQuantum\<close>): the bytes, whether it failed, and the
  text after it. Newlines are skipped; padding ends the text.
\<close>

fun b64_quantum :: "nat list \<Rightarrow> string \<Rightarrow> bytes \<times> bool \<times> string" where
  "b64_quantum acc [] = ([], acc \<noteq> [], [])"
| "b64_quantum acc (c # cs) =
     (case b64_value c of
        Some v \<Rightarrow>
          if length acc = 3 then (b64_join (acc @ [v]), False, cs) else b64_quantum (acc @ [v]) cs
      | None \<Rightarrow>
          if is_nl c then b64_quantum acc cs
          else if c \<noteq> CHR ''='' then ([], True, cs)
          else if length acc < 2 then ([], True, cs)
          else if length acc = 2 then
            (case dropWhile is_nl cs of
               [] \<Rightarrow> ([], True, [])
             | d # ds \<Rightarrow>
                 if d \<noteq> CHR ''='' then ([], True, ds)
                 else let rest = dropWhile is_nl ds in (b64_join acc, rest \<noteq> [], rest))
          else let rest = dropWhile is_nl cs in (b64_join acc, rest \<noteq> [], rest))"

lemma b64_quantum_shorter:
  "b64_quantum acc cs = (bs, err, rest) \<Longrightarrow> cs \<noteq> [] \<Longrightarrow> length rest < length cs"
proof (induction acc cs arbitrary: bs err rest rule: b64_quantum.induct)
  case (1 acc)
  then show ?case by simp
next
  case (2 acc c cs)
  have shrink: "length (dropWhile is_nl cs) \<le> length cs" for cs :: string
    by (rule length_dropWhile_le)
  have shrink2: "length (dropWhile is_nl ds) < Suc (length cs)" if "dropWhile is_nl cs = d # ds" for d ds
    using shrink [of ds] shrink [of cs] that by simp
  have step: "length rest < Suc (length cs)"
    if "b64_quantum acc' cs = (bs, err, rest)"
      and "cs \<noteq> [] \<Longrightarrow> length rest < length cs" for acc'
    using that by (cases cs) auto
  show ?case
    using 2 step shrink [of cs]
    by (auto split: option.splits if_splits list.splits simp: Let_def intro: shrink2)
qed

function b64_decode :: "string \<Rightarrow> bytes \<times> bool" where
  "b64_decode s =
     (if s = [] then ([], False)
      else case b64_quantum [] s of
             (bs, True, rest) \<Rightarrow> (bs, True)
           | (bs, False, rest) \<Rightarrow> (let (cs, err) = b64_decode rest in (bs @ cs, err)))"
  by pat_completeness auto
termination
  by (relation "measure length") (auto dest!: b64_quantum_shorter [OF sym])

declare b64_decode.simps [simp del]

section \<open>Round trip\<close>

lemma b64_value_char: "n < 64 \<Longrightarrow> b64_value (b64_char n) = Some n"
  by (auto simp: b64_value_def b64_char_def Let_def)

lemma b64_value_pad: "b64_value (CHR ''='') = None" "\<not> is_nl (CHR ''='')"
  by (simp_all add: b64_value_def is_nl_def)

lemma byte_lt: "unat (a :: byte) < 256"
  using unsigned_less [of a] by simp

lemma byte_bounds: "unat (a :: byte) div 4 < 64" "unat a mod 4 * 16 + unat (b :: byte) div 16 < 64"
    "unat a mod 4 * 16 < 64" "unat b mod 16 * 4 + unat (c :: byte) div 64 < 64"
    "unat b mod 16 * 4 < 64" "unat c mod 64 < 64"
  using byte_lt [of a] byte_lt [of b] byte_lt [of c] by linarith+

lemma nat_pack:
  fixes x y n :: nat
  assumes "y < n"
  shows "(x * n + y) div n = x" and "(x * n + y) mod n = y"
  using assms by simp_all

lemma byte_pieces:
  "unat (a :: byte) div 16 < 16" "unat a div 64 < 4"
  using byte_lt [of a] by linarith+

lemma b64_join3:
  "b64_join [unat a div 4, unat a mod 4 * 16 + unat b div 16,
     unat b mod 16 * 4 + unat c div 64, unat c mod 64] = [a, b, (c :: byte)]"
  by (simp add: b64_join_def nat_pack byte_pieces div_mult_mod_eq
      del: of_nat_add of_nat_mult)

lemma b64_join2:
  "b64_join [unat a div 4, unat a mod 4 * 16 + unat b div 16, unat b mod 16 * 4] = [a, (b :: byte)]"
  by (simp add: b64_join_def nat_pack byte_pieces div_mult_mod_eq
      del: of_nat_add of_nat_mult)

lemma b64_join1: "b64_join [unat a div 4, unat a mod 4 * 16] = [a :: byte]"
proof -
  have "unat a div 4 * 4 + unat a mod 4 * 16 div 16 = unat a" by simp
  then show ?thesis by (simp add: b64_join_def del: of_nat_add of_nat_mult)
qed

lemma b64_decode_encode: "b64_decode (b64_encode bs) = (bs, False)"
proof (induction bs rule: b64_encode.induct)
  case 1
  show ?case by (simp add: b64_decode.simps)
next
  case (2 a)
  show ?case
    by (subst b64_decode.simps)
      (simp add: b64_value_char byte_bounds b64_value_pad b64_join1 b64_decode.simps)
next
  case (3 a b)
  show ?case
    by (subst b64_decode.simps)
      (simp add: b64_value_char byte_bounds b64_value_pad b64_join2 b64_decode.simps)
next
  case (4 a b c r)
  then show ?case
    by (subst b64_decode.simps) (simp add: b64_value_char byte_bounds b64_join3)
qed

end
