(* ===== verification/Plugins.thy ===== *)
theory Plugins
  imports Agent Base64
begin

text \<open>
  The middleware chain of \<open>src/pkg/interfaces/interfaces.go\<close> (\<open>Use\<close>) and
  \<open>src/pkg/hot/plugins/plugins.go\<close>: rate limiting, one goroutine per message, the stress
  shortcut, latency statistics, and the forwarding of a message to the backend service.
  An end point takes a message and the state around one agent; it returns an error value
  (\<open>None\<close> is nil) or panics.
\<close>

section \<open>Use\<close>

fun use_loop :: "nat \<Rightarrow> ('e \<Rightarrow> 'e) list \<Rightarrow> 'e \<Rightarrow> 'e" where
  "use_loop 0 ms next = next"
| "use_loop (Suc i) ms next = use_loop i ms ((ms ! i) next)"

definition Use :: "('e \<Rightarrow> 'e) list \<Rightarrow> 'e \<Rightarrow> 'e" where
  "Use ms next = use_loop (length ms) ms next"

lemma Use_foldr: "Use ms e = foldr (\<lambda>m n. m n) ms e"
proof -
  have "i \<le> length ms \<Longrightarrow> use_loop i ms e = foldr (\<lambda>m n. m n) (take i ms) e" for i
    by (induction i arbitrary: e) (simp_all add: take_Suc_conv_app_nth)
  from this [of "length ms"] show ?thesis by (simp add: Use_def)
qed

lemma Use_Nil [simp]: "Use [] e = e"
  by (simp add: Use_foldr)

lemma Use_Cons [simp]: "Use (m # ms) e = m (Use ms e)"
  by (simp add: Use_foldr)

section \<open>The environment\<close>

text \<open>
  What the chain takes from outside the sources: the growth policy of \<open>append\<close>, whether
  the ticker in \<open>Agent.Write\<close> was picked, the build environment (\<open>version.ENV\<close>), the
  node's identity and backend address (\<open>configs\<close>), and the backend: the outcome and the
  duration of the n-th request. \<open>unmarshal\<close> is \<open>json.Unmarshal\<close> of a response body
  into a zero \<open>LuaMsg\<close>, errors ignored.
\<close>

datatype http_outcome =
    NewReqErr goerr | DoErr goerr | BodyErr goerr | Resp nat bytes

record env =
  e_grow :: "nat \<Rightarrow> nat \<Rightarrow> nat"
  e_late :: bool
  e_ENV :: string
  e_node_id :: string
  e_api_url :: string
  e_svc :: "nat \<Rightarrow> http_req \<Rightarrow> http_outcome \<times> nat"
  e_unmarshal :: "bytes \<Rightarrow> lua_msg"

type_synonym end_point = "msg \<Rightarrow> gst \<Rightarrow> goerr option go \<times> gst"

section \<open>Forwarding\<close>

text \<open>
  The sequence number: one compare-and-swap, then one increment, two separate atomic
  operations on the counter. A value of another type would be a nil pointer here.
\<close>

definition seqLimit :: u32 where "seqLimit = 2147483647 - 10000"

definition seq_cas :: "u32 \<Rightarrow> u32" where
  "seq_cas v = (if v = seqLimit then 0 else v)"

definition seq_add :: "u32 \<Rightarrow> u32" where
  "seq_add v = v + 1"

definition next_seq :: "agent \<Rightarrow> u32 go \<times> agent" where
  "next_seq a =
     (case agent_Get ''sequenceID'' a of
        None \<Rightarrow> (Ret 0, a)
      | Some (AtomicUint32 v) \<Rightarrow>
          (let v = seq_cas v; v = seq_add v in (Ret v, agent_Set ''sequenceID'' (AtomicUint32 v) a))
      | Some _ \<Rightarrow> (Panic ''nil pointer dereference'', a))"

definition lua_request :: "env \<Rightarrow> u32 \<Rightarrow> msg \<Rightarrow> agent \<Rightarrow> http_req" where
  "lua_request e sq m a =
     \<lparr>r_url = e_api_url e, r_proto_type = ''stream'', r_msg_id = dec (unat (msg_ID m)),
      r_msg = \<lparr>SequenceID = sq, ServerID = e_node_id e, ConnID = a_cid a, MsgID = msg_ID m,
               Bytes = b64_encode (msg_Body m)\<rparr>,
      r_real_ip = a_address a, r_secret = a_address a\<rparr>"

text \<open>The reply: by status, then the message it carries is written to the client.\<close>

definition http_reply :: "env \<Rightarrow> http_outcome \<Rightarrow> gst \<Rightarrow> goerr option go \<times> gst" where
  "http_reply e out g =
     (case out of
        NewReqErr err \<Rightarrow> (Ret (Some err), g)
      | DoErr err \<Rightarrow> (Ret (Some err), g)
      | BodyErr err \<Rightarrow> (Ret (Some err), g)
      | Resp status body \<Rightarrow>
          if status \<noteq> 200 then
            (if 500 \<le> status then (Ret (Some ErrServiceAPIReturn5xx), g)
             else if 400 \<le> status then (Ret (Some ErrServiceAPIReturn4xx), g)
             else (Ret None, g))
          else
            (let resp = e_unmarshal e body
             in if MsgID resp = 0 then (Ret None, g)
                else let bytes = fst (b64_decode (Bytes resp))
                     in (Ret None,
                         on_agent (\<lambda>a. snd (agent_Write (e_grow e) (e_late e) (MsgID resp) bytes a)) g)))"

text \<open>The request that is sent: no request leaves when it could not be built.\<close>

definition http_send :: "env \<Rightarrow> http_req \<Rightarrow> gst \<Rightarrow> http_outcome \<times> gst" where
  "http_send e req g =
     (let (out, took) = e_svc e (length (g_reqs g)) req
      in case out of
           NewReqErr err \<Rightarrow> (out, g)
         | _ \<Rightarrow> (out, g\<lparr>g_reqs := g_reqs g @ [req], g_clock := g_clock g + int took\<rparr>))"

definition ForwadHttp :: "env \<Rightarrow> end_point" where
  "ForwadHttp e m g =
     (case next_seq (g_agent g) of
        (Panic p, a) \<Rightarrow> (Panic p, g\<lparr>g_agent := a\<rparr>)
      | (Ret sq, a) \<Rightarrow>
          (let g = g\<lparr>g_agent := a\<rparr>;
               (out, g) = http_send e (lua_request e sq m (g_agent g)) g
           in http_reply e out g))"

section \<open>Middlewares\<close>

text \<open>\<open>RecoverMiddle\<close> is defined by the package and not part of the chain.\<close>

definition RecoverMiddle :: "end_point \<Rightarrow> end_point" where
  "RecoverMiddle next m g =
     (case next m g of
        (Ret r, g) \<Rightarrow> (Ret r, g)
      | (Panic p, g) \<Rightarrow>
          (Ret None, AlertAuto (PublicPanic (a_cid (g_agent g)) (a_address (g_agent g)) m p) g))"

definition rateLimit :: int where "rateLimit = 10"

definition RateLimitMiddle :: "end_point \<Rightarrow> end_point" where
  "RateLimitMiddle next m g =
     (let g = on_met (\<lambda>x. x\<lparr>CountPublicTCPRequest := CountPublicTCPRequest x + 1\<rparr>) g;
          g = (if agent_Get ''concurrent'' (g_agent g) = None
               then on_agent (agent_Set ''concurrent'' (AtomicInt32 0)) g else g);
          continue = (\<lambda>g.
            next m (if agent_Get ''sequenceID'' (g_agent g) = None
                    then on_agent (agent_Set ''sequenceID'' (AtomicUint32 0)) g else g))
      in case agent_Get ''concurrent'' (g_agent g) of
           Some (AtomicInt32 n) \<Rightarrow>
             if rateLimit < sint n
             then (Ret None, AlertAuto (SpeedLimit (a_cid (g_agent g)) (a_address (g_agent g))) g)
             else continue (on_agent (agent_Set ''concurrent'' (AtomicInt32 (n + 1))) g)
         | _ \<Rightarrow> continue g)"

text \<open>
  \<open>ConcurrentMiddle\<close> starts a goroutine and returns nil at once. The goroutine is recorded
  as a job; \<open>concurrent_go next\<close> is its body, to be run whenever it is scheduled.
\<close>

definition ConcurrentMiddle :: "end_point \<Rightarrow> end_point" where
  "ConcurrentMiddle next m g = (Ret None, g\<lparr>g_jobs := g_jobs g @ [m]\<rparr>)"

definition job_alert :: "msg \<Rightarrow> goerr option go \<Rightarrow> gst \<Rightarrow> gst" where
  "job_alert m r g =
     (case r of
        Ret None \<Rightarrow> g
      | Ret (Some err) \<Rightarrow>
          AlertAuto (PublicError (a_cid (g_agent g)) (a_address (g_agent g)) err m) g
      | Panic p \<Rightarrow>
          AlertAuto (PublicPanic (a_cid (g_agent g)) (a_address (g_agent g)) m p) g)"

definition concurrent_go :: "end_point \<Rightarrow> msg \<Rightarrow> gst \<Rightarrow> gst" where
  "concurrent_go next m g =
     (let g = on_met (\<lambda>x. x\<lparr>CountPublicHTTPRequest := CountPublicHTTPRequest x + 1\<rparr>) g;
          (r, g) = next m g
      in job_alert m r g)"

text \<open>The deferred decrement runs when the call returns and when it panics.\<close>

definition rate_end :: "gst \<Rightarrow> gst" where
  "rate_end g =
     (case agent_Get ''concurrent'' (g_agent g) of
        Some (AtomicInt32 n) \<Rightarrow> on_agent (agent_Set ''concurrent'' (AtomicInt32 (n - 1))) g
      | _ \<Rightarrow> g)"

definition RateLimitEndMiddle :: "end_point \<Rightarrow> end_point" where
  "RateLimitEndMiddle next m g = (case next m g of (r, g) \<Rightarrow> (r, rate_end g))"

definition log_done :: "msg \<Rightarrow> int \<Rightarrow> goerr option \<Rightarrow> gst \<Rightarrow> goerr option go \<times> gst" where
  "log_done m start err g =
     (let cost = (g_clock g - start) div 1000000;
          proto = dec (unat (msg_ID m))
      in case proto_In proto cost (P99PublicHTTPRequestLatency (g_met g)) of
           Panic p \<Rightarrow> (Panic p, g)
         | Ret pp \<Rightarrow>
             (let g = on_met (\<lambda>x. x\<lparr>P99PublicHTTPRequestLatency := pp\<rparr>) g
              in (Ret err,
                  if 4000 \<le> cost
                  then AlertAuto (PublicSlow (a_cid (g_agent g)) (a_address (g_agent g)) m cost) g
                  else g)))"

definition LogMiddle :: "end_point \<Rightarrow> end_point" where
  "LogMiddle next m g =
     (let start = g_clock g
      in case next m g of
           (Panic p, g) \<Rightarrow> (Panic p, g)
         | (Ret err, g) \<Rightarrow> log_done m start err g)"

definition EnvDev :: string where "EnvDev = ''dev''"

definition StressTest :: "env \<Rightarrow> end_point \<Rightarrow> end_point" where
  "StressTest e next m g =
     (if e_ENV e = EnvDev \<and> msg_ID m = 1001
      then (case agent_Write (e_grow e) (e_late e) 1001 (msg_Body m) (g_agent g) of
              (Some err, a) \<Rightarrow> (Ret (Some err), g\<lparr>g_agent := a\<rparr>)
            | (None, a) \<Rightarrow> (Ret None, g\<lparr>g_agent := a\<rparr>))
      else next m g)"

section \<open>The chain\<close>

definition plugin_list :: "env \<Rightarrow> (end_point \<Rightarrow> end_point) list" where
  "plugin_list e =
     [RateLimitMiddle, ConcurrentMiddle, RateLimitEndMiddle, StressTest e, LogMiddle]"

definition PluginsMain :: "env \<Rightarrow> end_point" where
  "PluginsMain e = Use (plugin_list e) (ForwadHttp e)"

text \<open>
  The goroutine of \<open>ConcurrentMiddle\<close> runs the rest of the same chain: the \<open>next\<close> that
  \<open>Use\<close> passed to it.
\<close>

definition chain_tail :: "env \<Rightarrow> end_point" where
  "chain_tail e = Use (drop 2 (plugin_list e)) (ForwadHttp e)"

definition run_job :: "env \<Rightarrow> msg \<Rightarrow> gst \<Rightarrow> gst" where
  "run_job e = concurrent_go (chain_tail e)"

lemma PluginsMain_unfold: "PluginsMain e = RateLimitMiddle (ConcurrentMiddle (chain_tail e))"
  by (simp add: PluginsMain_def chain_tail_def plugin_list_def numeral_2_eq_2)

lemma chain_tail_unfold:
  "chain_tail e = RateLimitEndMiddle (StressTest e (LogMiddle (ForwadHttp e)))"
  by (simp add: chain_tail_def plugin_list_def numeral_2_eq_2)

end
