(* ===== verification/Http_Api.thy ===== *)
theory Http_Api
  imports Registry Plugins
begin

text \<open>
  The private HTTP interface of \<open>src/pkg/gateway/gateway.go\<close>: the four operations the
  backend services call on connected clients, the handler for unknown paths, and the two
  middlewares of \<open>src/pkg/hot/middlewares/middlewares.go\<close>.

  A handler looks the agent up and answers; what it does to agents besides is a list of
  actions that its goroutine, or a goroutine it starts, performs one after the other, with
  any other goroutine of the gateway running in between.
\<close>

section \<open>Requests, responses, actions\<close>

text \<open>
  The body is bound by gin (\<open>ShouldBindJSON\<close>), not by the sources: a request carries the
  outcome of the binding, an error or the filled structure.
\<close>

record send_req =
  q_connID :: string
  q_bytes :: string
  q_msgID :: u16

record broadcast_req =
  q_connIDs :: "string list"
  q_bbytes :: string
  q_bmsgID :: u16
  q_durationSeconds :: int

datatype inbound =
    PostClose "goerr + string"
  | PostSend "goerr + send_req"
  | PostSendAndClose "goerr + send_req"
  | PostBroadcast "goerr + broadcast_req"
  | NoRoute string string     \<comment> \<open>path, method\<close>

datatype message = MsgText string | MsgErr goerr

record http_resp =
  rs_status :: nat
  rs_code :: nat
  rs_message :: message

definition ok_resp :: http_resp where
  "ok_resp = \<lparr>rs_status = 200, rs_code = 0, rs_message = MsgText ''success''\<rparr>"

definition bind_error :: "goerr \<Rightarrow> http_resp" where
  "bind_error e = \<lparr>rs_status = 200, rs_code = 1, rs_message = MsgErr e\<rparr>"

text \<open>
  Agents are referred to by their number. Sleeping turns into waiting for a point in time.
\<close>

datatype act =
    ADisable nat
  | AClose nat
  | AWrite nat u16 bytes
  | ALookupWrite string u16 bytes int
  | ASleep int
  | AUntil int
  | AGo "act list"
  | ALog string int

section \<open>The handlers\<close>

definition handle_close :: "nat gateway \<Rightarrow> goerr + string \<Rightarrow> http_resp \<times> act list" where
  "handle_close gw jsonMsg =
     (case jsonMsg of
        Inl err \<Rightarrow> (bind_error err, [])
      | Inr connID \<Rightarrow>
          (case GetAgent connID gw of
             None \<Rightarrow> (ok_resp, [])
           | Some agent \<Rightarrow> (ok_resp, [ADisable agent, AClose agent])))"

definition handle_send :: "nat gateway \<Rightarrow> goerr + send_req \<Rightarrow> http_resp \<times> act list" where
  "handle_send gw jsonMsg =
     (case jsonMsg of
        Inl err \<Rightarrow> (bind_error err, [])
      | Inr q \<Rightarrow>
          (case GetAgent (q_connID q) gw of
             None \<Rightarrow> (ok_resp, [])
           | Some agent \<Rightarrow>
               (let bytes = fst (b64_decode (q_bytes q))
                in (ok_resp, [AWrite agent (q_msgID q) bytes]))))"

definition handle_sendAndClose :: "nat gateway \<Rightarrow> goerr + send_req \<Rightarrow> http_resp \<times> act list" where
  "handle_sendAndClose gw jsonMsg =
     (case jsonMsg of
        Inl err \<Rightarrow> (bind_error err, [])
      | Inr q \<Rightarrow>
          (case GetAgent (q_connID q) gw of
             None \<Rightarrow> (ok_resp, [])
           | Some agent \<Rightarrow>
               (let bytes = fst (b64_decode (q_bytes q))
                in (ok_resp,
                    [AWrite agent (q_msgID q) bytes,
                     AGo [ADisable agent, ASleep 1000000000, AClose agent]]))))"

text \<open>64-bit arithmetic of Go's \<open>int\<close>: wrapping product, truncating division.\<close>

definition int64 :: "int \<Rightarrow> int" where
  "int64 i = sint (word_of_int i :: 64 word)"

definition quot :: "int \<Rightarrow> int \<Rightarrow> int" where
  "quot a b = sgn a * sgn b * (\<bar>a\<bar> div \<bar>b\<bar>)"

definition handle_broadcast :: "nat gateway \<Rightarrow> goerr + broadcast_req \<Rightarrow> http_resp \<times> act list" where
  "handle_broadcast gw jsonMsg =
     (case jsonMsg of
        Inl err \<Rightarrow> (bind_error err, [])
      | Inr q \<Rightarrow>
          if length (q_connIDs q) = 0 then (ok_resp, [])
          else let bytes = fst (b64_decode (q_bbytes q));
                   interval = quot (int64 (q_durationSeconds q * 1000)) (int (length (q_connIDs q)))
               in (ok_resp,
                   [AGo (map (\<lambda>connId. ALookupWrite connId (q_bmsgID q) bytes (int64 (interval * 1000000)))
                          (q_connIDs q))]))"

text \<open>The router: response, actions, alerts.\<close>

definition serve :: "nat gateway \<Rightarrow> inbound \<Rightarrow> http_resp \<times> act list \<times> alert list" where
  "serve gw r =
     (case r of
        PostClose q \<Rightarrow> (case handle_close gw q of (resp, acts) \<Rightarrow> (resp, acts, []))
      | PostSend q \<Rightarrow> (case handle_send gw q of (resp, acts) \<Rightarrow> (resp, acts, []))
      | PostSendAndClose q \<Rightarrow> (case handle_sendAndClose gw q of (resp, acts) \<Rightarrow> (resp, acts, []))
      | PostBroadcast q \<Rightarrow> (case handle_broadcast gw q of (resp, acts) \<Rightarrow> (resp, acts, []))
      | NoRoute path method \<Rightarrow>
          (\<lparr>rs_status = 404, rs_code = 1, rs_message = MsgText ''bad path''\<rparr>, [],
           [UnknownPath path method]))"

section \<open>The middlewares\<close>

text \<open>
  \<open>LogMiddle\<close> counts the request before the handler and records its latency after it;
  a panic below \<open>CustomRecovery\<close> becomes an alert and a response with status 500.
\<close>

definition http_enter :: "metrics \<Rightarrow> metrics" where
  "http_enter m = m\<lparr>CountPrivateHTTPRequest := CountPrivateHTTPRequest m + 1\<rparr>"

definition http_leave :: "string \<Rightarrow> string \<Rightarrow> int \<Rightarrow> int \<Rightarrow> metrics \<Rightarrow> (metrics \<times> alert list) go" where
  "http_leave ip path start now m =
     (let cost = quot (now - start) 1000000
      in go_bind (proto_In path cost (P99PrivateHTTPRequestLatency m)) (\<lambda>pp.
           Ret (m\<lparr>P99PrivateHTTPRequestLatency := pp\<rparr>,
                if 4000 \<le> cost then [PrivateSlow ip path cost] else [])))"

definition CustomRecovery :: "string \<Rightarrow> http_resp go \<Rightarrow> http_resp \<times> alert list" where
  "CustomRecovery ip r =
     (case r of
        Ret resp \<Rightarrow> (resp, [])
      | Panic p \<Rightarrow>
          (\<lparr>rs_status = 500, rs_code = 1, rs_message = MsgText ''panic''\<rparr>, [PrivatePanic ip p]))"

text \<open>One request through the chain: recovery around statistics around the handler.\<close>

definition private_request ::
  "string \<Rightarrow> string \<Rightarrow> int \<Rightarrow> int \<Rightarrow> nat gateway \<Rightarrow> inbound \<Rightarrow> metrics \<Rightarrow>
     http_resp \<times> act list \<times> alert list \<times> metrics" where
  "private_request ip path start now gw r m =
     (let m = http_enter m; (resp, acts, al) = serve gw r
      in case http_leave ip path start now m of
           Ret (m, slow) \<Rightarrow> (fst (CustomRecovery ip (Ret resp)), acts, al @ slow, m)
         | Panic p \<Rightarrow>
             (case CustomRecovery ip (Panic p) of (resp, al') \<Rightarrow> (resp, acts, al @ al', m)))"

end
