(* ===== verification/Agent_Write.thy ===== *)
theory Agent_Write
  imports Agent
begin

text \<open>
  The write side of an agent (\<open>src/pkg/agent/agent.go\<close>): \<open>Write\<close>, called by any number
  of goroutines, and \<open>loopWrite\<close>, the one goroutine that empties the buffer into the
  connection. They share the writer's buffer and the wake-up channel \<open>wd\<close>; here they are
  the steps of a transition relation, so every interleaving is covered.
\<close>

section \<open>Write in two steps\<close>

text \<open>A call appends its frame, and later its \<open>select\<close> sends a token or gives up.\<close>

definition write_append ::
  "(nat \<Rightarrow> nat \<Rightarrow> nat) \<Rightarrow> u16 \<Rightarrow> bytes \<Rightarrow> agent \<Rightarrow> goerr option \<times> agent" where
  "write_append grow msgID body a =
     (case writer_Write grow msgID body 0 (a_w a) of (r, w) \<Rightarrow> (r, a\<lparr>a_w := w\<rparr>))"

lemma agent_Write_split:
  "agent_Write grow late i b a =
     (case write_append grow i b a of
        (Some e, a) \<Rightarrow> (Some e, a)
      | (None, a) \<Rightarrow> (None, agent_notify late a))"
  by (auto simp: agent_Write_def write_append_def split: prod.splits option.splits)

section \<open>The write loop\<close>

text \<open>
  Where \<open>loopWrite\<close> stands: at its \<open>select\<close>, before \<open>Pop\<close>, before \<open>Flush\<close> with the
  bytes it has popped, returned (\<open>None\<close> when the context was cancelled), or returned with
  the goroutine around it ended as well.
\<close>

datatype wpc = WSelect | WPop | WFlush bytes | WExit "goerr option" | WGone

definition loop_pop :: "agent \<Rightarrow> wpc \<times> agent" where
  "loop_pop a =
     (case writer_Pop (a_w a) of
        (Inl e, w) \<Rightarrow> (WExit (Some e), a\<lparr>a_w := w\<rparr>)
      | (Inr b, w) \<Rightarrow> (if length b = 0 then WSelect else WFlush b, a\<lparr>a_w := w\<rparr>))"

definition loop_flush :: "bytes \<Rightarrow> agent \<Rightarrow> wpc \<times> agent" where
  "loop_flush b a =
     (case writer_Flush conn_Write b (a_w a) of
        (Some e, w) \<Rightarrow> (WExit (Some e), a\<lparr>a_w := w\<rparr>)
      | (None, w) \<Rightarrow> (WSelect, a\<lparr>a_w := w\<rparr>))"

section \<open>All interleavings\<close>

text \<open>
  \<open>x_calls\<close> counts the calls of \<open>Write\<close> that have appended and not yet returned;
  \<open>x_acc\<close> records the messages accepted so far. The ticker of a call may fire at any
  time; when \<open>timely\<close> holds, it only does while the channel stays full.
\<close>

record wsys =
  x_a :: agent
  x_loop :: wpc
  x_calls :: nat
  x_acc :: "(u16 \<times> bytes) list"

definition agent_recv :: "agent \<Rightarrow> agent" where
  "agent_recv a = a\<lparr>a_wd := a_wd a - 1\<rparr>"

text \<open>The steps by which accepted messages move on to the client.\<close>

inductive wint :: "bool \<Rightarrow> wsys \<Rightarrow> wsys \<Rightarrow> bool" for timely :: bool where
  notify: "x_calls s = Suc n \<Longrightarrow> (late \<Longrightarrow> timely \<Longrightarrow> wdCap \<le> a_wd (x_a s)) \<Longrightarrow>
     wint timely s (s\<lparr>x_a := agent_notify late (x_a s), x_calls := n\<rparr>)"
| wake: "x_loop s = WSelect \<Longrightarrow> 0 < a_wd (x_a s) \<Longrightarrow>
     wint timely s (s\<lparr>x_a := agent_recv (x_a s), x_loop := WPop\<rparr>)"
| pop: "x_loop s = WPop \<Longrightarrow> loop_pop (x_a s) = (pc, a) \<Longrightarrow>
     wint timely s (s\<lparr>x_a := a, x_loop := pc\<rparr>)"
| flush: "x_loop s = WFlush b \<Longrightarrow> loop_flush b (x_a s) = (pc, a) \<Longrightarrow>
     wint timely s (s\<lparr>x_a := a, x_loop := pc\<rparr>)"

text \<open>
  All steps: a message is accepted, the loop sees the cancelled context, somebody cancels,
  the finalizer closes the connection.
\<close>

inductive wstep :: "bool \<Rightarrow> wsys \<Rightarrow> wsys \<Rightarrow> bool" for timely :: bool where
  inner: "wint timely s t \<Longrightarrow> wstep timely s t"
| append: "write_append grow i b (x_a s) = (None, a) \<Longrightarrow>
     wstep timely s (s\<lparr>x_a := a, x_calls := x_calls s + 1, x_acc := x_acc s @ [(i, b)]\<rparr>)"
| quit: "x_loop s = WSelect \<Longrightarrow> a_done (x_a s) \<Longrightarrow>
     wstep timely s (s\<lparr>x_loop := WExit None\<rparr>)"
| cancel: "wstep timely s (s\<lparr>x_a := agent_Close (x_a s)\<rparr>)"
| hangup: "a_done (x_a s) \<Longrightarrow>
     wstep timely s (s\<lparr>x_a := set_conn (conn_Close (conn_of (x_a s))) (x_a s)\<rparr>)"


abbreviation wreach :: "bool \<Rightarrow> wsys \<Rightarrow> wsys \<Rightarrow> bool" where
  "wreach timely \<equiv> (wstep timely)\<^sup>*\<^sup>*"

definition wstart :: "wsys \<Rightarrow> bool" where
  "wstart s \<longleftrightarrow> w_b (a_w (x_a s)) = [] \<and> w_err (a_w (x_a s)) = None \<and> c_out (conn_of (x_a s)) = [] \<and>
     a_wd (x_a s) = 0 \<and> x_loop s = WSelect \<and> x_calls s = 0 \<and> x_acc s = []"

definition x_sent :: "wsys \<Rightarrow> bytes" where
  "x_sent s = c_out (conn_of (x_a s))"

definition x_frames :: "wsys \<Rightarrow> bytes" where
  "x_frames s = concat (map (\<lambda>(i, b). frame i b 0) (x_acc s))"

definition popped :: "wpc \<Rightarrow> bytes" where
  "popped pc = (case pc of WFlush b \<Rightarrow> b | _ \<Rightarrow> [])"

section \<open>What is sent, popped and buffered is what was accepted\<close>

definition stream_inv :: "wsys \<Rightarrow> bool" where
  "stream_inv s \<longleftrightarrow>
     (case w_err (a_w (x_a s)) of
        None \<Rightarrow> (\<forall>r. x_loop s \<noteq> WExit (Some r)) \<and>
          x_sent s @ popped (x_loop s) @ w_b (a_w (x_a s)) = x_frames s
      | Some e \<Rightarrow> prefix (x_sent s) (x_frames s))"

lemma stream_inv_start: "wstart s \<Longrightarrow> stream_inv s"
  by (simp add: wstart_def stream_inv_def x_sent_def x_frames_def popped_def)

lemma conn_out_simps [simp]:
  "c_out (conn_Close c) = c_out c"
  "conn_of (set_conn c a) = c"
  "conn_of (agent_recv a) = conn_of a" "conn_of (agent_Close a) = conn_of a"
  "conn_of (agent_notify late a) = conn_of a"
  "a_w (agent_recv a) = a_w a" "a_w (agent_Close a) = a_w a" "a_w (agent_notify late a) = a_w a"
  "a_wd (agent_Close a) = a_wd a" "a_wd (set_conn c a) = a_wd a"
  "a_wd (agent_recv a) = a_wd a - 1"
  "w_b (a_w (set_conn c a)) = w_b (a_w a)" "w_err (a_w (set_conn c a)) = w_err (a_w a)"
  by (simp_all add: conn_Close_def conn_of_def set_conn_def agent_recv_def agent_Close_def
      agent_notify_def)

lemma write_append_None:
  "write_append grow i b a = (None, a') \<Longrightarrow>
     w_err (a_w a) = None \<and> w_err (a_w a') = None \<and> conn_of a' = conn_of a \<and> a_wd a' = a_wd a \<and>
     w_b (a_w a') = w_b (a_w a) @ frame i b 0"
  by (auto simp: write_append_def writer_Write_def conn_of_def frame_buf_frame Let_def
      split: prod.splits if_splits)

lemma loop_pop_cases:
  assumes "loop_pop a = (pc, a')"
  obtains (fail) e where "w_err (a_w a) = Some e" "pc = WExit (Some e)" "a' = a"
    | (empty) "w_err (a_w a) = None" "w_b (a_w a) = []" "pc = WSelect" "w_err (a_w a') = None"
        "w_b (a_w a') = []" "conn_of a' = conn_of a" "a_wd a' = a_wd a"
    | (full) "w_err (a_w a) = None" "w_b (a_w a) \<noteq> []" "pc = WFlush (w_b (a_w a))"
        "w_err (a_w a') = None" "w_b (a_w a') = []" "conn_of a' = conn_of a" "a_wd a' = a_wd a"
proof (cases "w_err (a_w a)")
  case (Some e)
  with assms have "pc = WExit (Some e)" "a' = a\<lparr>a_w := a_w a\<rparr>"
    by (auto simp: loop_pop_def writer_Pop_def)
  with fail [OF Some] show ?thesis by simp
next
  case None
  then have a': "pc = (if w_b (a_w a) = [] then WSelect else WFlush (w_b (a_w a)))"
    "w_err (a_w a') = None" "w_b (a_w a') = []" "conn_of a' = conn_of a" "a_wd a' = a_wd a"
    using assms by (auto simp: loop_pop_def writer_Pop_def conn_of_def Let_def split: if_splits)
  show ?thesis
  proof (cases "w_b (a_w a) = []")
    case True
    with None a' show ?thesis by (intro empty) simp_all
  next
    case False
    with None a' show ?thesis by (intro full) simp_all
  qed
qed

lemma loop_flush_cases:
  assumes "loop_flush b a = (pc, a')" and "w_err (a_w a) = None"
  obtains (sent) "pc = WSelect" "w_err (a_w a') = None" "w_b (a_w a') = w_b (a_w a)"
      "c_out (conn_of a') = c_out (conn_of a) @ b" "a_wd a' = a_wd a"
    | (fail) e p where "pc = WExit (Some e)" "w_err (a_w a') = Some e" "prefix p b"
      "c_out (conn_of a') = c_out (conn_of a) @ p" "a_wd a' = a_wd a"
proof -
  obtain r w where r: "writer_Flush conn_Write b (a_w a) = (r, w)" by fastforce
  show ?thesis
  proof (cases r)
    case None
    with r assms tcp.flush_delivers [of b "a_w a" w] show ?thesis
      by (intro sent) (auto simp: loop_flush_def conn_of_def)
  next
    case (Some e)
    with r tcp.flush_fails [of b "a_w a" e w] obtain p where
      "prefix p b" "c_out (w_w w) = c_out (w_w (a_w a)) @ p" "w_err w = Some e" by blast
    with r Some assms show ?thesis
      by (intro fail [of e p]) (auto simp: loop_flush_def conn_of_def)
  qed
qed

lemma loop_flush_err:
  "w_err (a_w a) = Some e \<Longrightarrow> loop_flush b a = (WExit (Some e), a)"
  by (simp add: loop_flush_def writer_err_sticks)

lemma wint_stream_inv:
  assumes "wint timely s t" and "stream_inv s"
  shows "stream_inv t"
  using assms
proof (induction rule: wint.induct)
  case (pop s pc a)
  from pop(2) show ?case
  proof (cases rule: loop_pop_cases)
    case (fail e)
    with pop show ?thesis by (simp add: stream_inv_def x_sent_def x_frames_def)
  next
    case empty
    with pop show ?thesis by (simp add: stream_inv_def x_sent_def x_frames_def popped_def)
  next
    case full
    with pop show ?thesis by (simp add: stream_inv_def x_sent_def x_frames_def popped_def)
  qed
next
  case (flush s b pc a)
  show ?case
  proof (cases "w_err (a_w (x_a s))")
    case (Some e)
    with flush loop_flush_err [OF Some, of b] show ?thesis
      by (simp add: stream_inv_def x_sent_def x_frames_def)
  next
    case None
    from flush(2) None show ?thesis
    proof (cases rule: loop_flush_cases)
      case sent
      with flush None show ?thesis
        by (simp add: stream_inv_def x_sent_def x_frames_def popped_def)
    next
      case (fail e p)
      have "x_frames s = x_sent s @ b @ w_b (a_w (x_a s))"
        using flush None by (simp add: stream_inv_def popped_def)
      moreover have "x_sent (s\<lparr>x_a := a, x_loop := pc\<rparr>) = x_sent s @ p"
        using fail by (simp add: x_sent_def)
      ultimately show ?thesis
        using fail by (simp add: stream_inv_def prefix_prefix) (simp add: x_frames_def prefix_prefix)
    qed
  qed
qed (auto simp: stream_inv_def x_sent_def x_frames_def popped_def split: option.splits)

lemma wstep_stream_inv:
  assumes "wstep timely s t" and "stream_inv s"
  shows "stream_inv t"
  using assms
proof (induction rule: wstep.induct)
  case (inner s t)
  then show ?case by (rule wint_stream_inv)
next
  case (append grow i b s a)
  from write_append_None [OF append(1)] append(2) show ?case
    by (simp add: stream_inv_def x_sent_def x_frames_def)
qed (auto simp: stream_inv_def x_sent_def x_frames_def popped_def split: option.splits)

section \<open>Every accepted message has a wake-up pending\<close>

definition wake_inv :: "wsys \<Rightarrow> bool" where
  "wake_inv s \<longleftrightarrow>
     w_err (a_w (x_a s)) = None \<longrightarrow> w_b (a_w (x_a s)) \<noteq> [] \<longrightarrow>
       0 < x_calls s \<or> 0 < a_wd (x_a s) \<or> x_loop s = WPop \<or> x_loop s = WExit None"

lemma agent_notify_wd: "a_wd (agent_notify late a) = (if late \<or> wdCap \<le> a_wd a then a_wd a else a_wd a + 1)"
  by (simp add: agent_notify_def)

lemma wint_wake_inv:
  assumes "wint True s t" and "wake_inv s"
  shows "wake_inv t"
  using assms
proof (induction rule: wint.induct)
  case (notify s n late)
  then show ?case by (auto simp: wake_inv_def agent_notify_wd wdCap_def)
next
  case (pop s pc a)
  from pop(2) show ?case
    by (cases rule: loop_pop_cases) (simp_all add: wake_inv_def)
next
  case (flush s b pc a)
  show ?case
  proof (cases "w_err (a_w (x_a s))")
    case (Some e)
    with flush loop_flush_err [OF Some, of b] show ?thesis by (simp add: wake_inv_def)
  next
    case None
    from flush(2) None show ?thesis
    proof (cases rule: loop_flush_cases)
      case sent
      with flush None show ?thesis by (simp add: wake_inv_def)
    next
      case (fail e p)
      then show ?thesis by (simp add: wake_inv_def)
    qed
  qed
qed (auto simp: wake_inv_def)

lemma wstep_wake_inv:
  assumes "wstep True s t" and "wake_inv s"
  shows "wake_inv t"
  using assms
proof (induction rule: wstep.induct)
  case (inner s t)
  then show ?case by (rule wint_wake_inv)
qed (auto simp: wake_inv_def)

lemma wake_inv_start: "wstart s \<Longrightarrow> wake_inv s"
  by (simp add: wstart_def wake_inv_def)

lemma wreach_inv:
  "wreach timely s t \<Longrightarrow> wstart s \<Longrightarrow> stream_inv t \<and> (timely \<longrightarrow> wake_inv t)"
  by (induction rule: rtranclp_induct)
    (auto intro: wstep_stream_inv stream_inv_start wstep_wake_inv wake_inv_start)

section \<open>Draining\<close>

text \<open>A connection that accepts everything, with the write loop running on it.\<close>

definition healthy :: "wsys \<Rightarrow> bool" where
  "healthy s \<longleftrightarrow> w_err (a_w (x_a s)) = None \<and> c_room (conn_of (x_a s)) = None \<and>
     \<not> c_closed (conn_of (x_a s)) \<and> (\<forall>r. x_loop s \<noteq> WExit r) \<and> x_loop s \<noteq> WGone"

fun wpc_rank :: "wpc \<Rightarrow> nat" where
  "wpc_rank WPop = 2"
| "wpc_rank (WFlush b) = 1"
| "wpc_rank pc = 0"

definition wmeas :: "wsys \<Rightarrow> nat" where
  "wmeas s = 4 * x_calls s + 3 * a_wd (x_a s) + wpc_rank (x_loop s)"

lemma loop_flush_healthy:
  assumes "loop_flush b a = (pc, a')" and "w_err (a_w a) = None" and "c_room (conn_of a) = None"
    and "\<not> c_closed (conn_of a)"
  shows "pc = WSelect" "w_err (a_w a') = None" "c_room (conn_of a') = None"
    "\<not> c_closed (conn_of a')" "a_wd a' = a_wd a"
  using assms by (auto simp: loop_flush_def writer_Flush_def conn_Write_def conn_of_def)

lemma wint_healthy:
  assumes "wint timely s t" and "healthy s"
  shows "healthy t \<and> wmeas t < wmeas s \<and> x_acc t = x_acc s"
  using assms
proof (induction rule: wint.induct)
  case (notify s n late)
  then show ?case by (auto simp: healthy_def wmeas_def agent_notify_wd)
next
  case (wake s)
  then show ?case by (auto simp: healthy_def wmeas_def)
next
  case (pop s pc a)
  from pop(2) show ?case
    by (cases rule: loop_pop_cases) (use pop in \<open>auto simp: healthy_def wmeas_def\<close>)
next
  case (flush s b pc a)
  then have h: "w_err (a_w (x_a s)) = None" "c_room (conn_of (x_a s)) = None"
    "\<not> c_closed (conn_of (x_a s))" by (simp_all add: healthy_def)
  from loop_flush_healthy [OF flush(2) h] flush show ?case
    by (auto simp: healthy_def wmeas_def)
qed

lemma wint_run:
  "(wint timely ^^ n) s u \<Longrightarrow> healthy s \<Longrightarrow> healthy u \<and> n + wmeas u \<le> wmeas s \<and> x_acc u = x_acc s"
proof (induction n arbitrary: u)
  case 0
  then show ?case by simp
next
  case (Suc n)
  then obtain t where "(wint timely ^^ n) s t" "wint timely t u" by auto
  with Suc wint_healthy [of timely t u] show ?case by force
qed

lemma wint_stuck:
  assumes "healthy s" and "\<nexists>u. wint timely s u"
  shows "x_calls s = 0 \<and> a_wd (x_a s) = 0 \<and> x_loop s = WSelect"
proof -
  have "x_loop s = WSelect"
  proof (cases "x_loop s")
    case WPop
    obtain pc a where "loop_pop (x_a s) = (pc, a)" by fastforce
    with WPop assms(2) show ?thesis by (blast intro: wint.pop)
  next
    case (WFlush b)
    obtain pc a where "loop_flush b (x_a s) = (pc, a)" by fastforce
    with WFlush assms(2) show ?thesis by (blast intro: wint.flush)
  qed (use assms(1) in \<open>auto simp: healthy_def\<close>)
  moreover from this have "a_wd (x_a s) = 0" using assms(2) wint.wake [of s timely] by auto
  moreover have "x_calls s = 0"
    using assms(2) wint.notify [of s _ False timely] by (cases "x_calls s") auto
  ultimately show ?thesis by simp
qed

lemma wint_wreach: "(wint timely ^^ n) s u \<Longrightarrow> wreach timely s u"
proof (induction n arbitrary: u)
  case (Suc n)
  then obtain t where "wreach timely s t" "wint timely t u" by auto
  then show ?case by (blast intro: wstep.inner rtranclp.rtrancl_into_rtrancl)
qed simp

section \<open>Properties\<close>

definition demo_out :: "(nat \<times> goerr) option \<Rightarrow> wsys" where
  "demo_out room =
     \<lparr>x_a = agent_New \<lparr>c_in = [], c_end = IoEOF, c_out = [], c_room = room, c_closed = False\<rparr>
        ''1.2.3.4:5'' ''1_2_3'',
      x_loop = WSelect, x_calls = 0, x_acc = []\<rparr>"

lemma demo_out_start: "wstart (demo_out room)"
  by (simp add: demo_out_def wstart_def agent_New_def writer_New_def conn_of_def)

text \<open>One message written, its wake-up sent, received, and the buffer flushed.\<close>

definition demo_appended :: "(nat \<times> goerr) option \<Rightarrow> wsys" where
  "demo_appended room =
     (demo_out room)\<lparr>x_a := snd (write_append (\<lambda>_ n. n) 1001 [7] (x_a (demo_out room))),
        x_calls := 1, x_acc := [(1001, [7])]\<rparr>"

definition demo_woken :: "(nat \<times> goerr) option \<Rightarrow> wsys" where
  "demo_woken room =
     (let s = demo_appended room;
          a = snd (loop_pop (agent_recv (agent_notify False (x_a s))));
          (pc, a) = loop_flush (frame 1001 [7] 0) a
      in s\<lparr>x_a := a, x_calls := 0, x_loop := pc\<rparr>)"

lemma demo_appended_step: "wreach timely (demo_out room) (demo_appended room)"
proof -
  have "fst (write_append (\<lambda>_ n. n) 1001 [7] (x_a (demo_out room))) = None"
    by (simp add: write_append_def writer_Write_def demo_out_def agent_New_def writer_New_def Let_def)
  then obtain a where a: "write_append (\<lambda>_ n. n) 1001 [7] (x_a (demo_out room)) = (None, a)"
    by (metis prod.collapse)
  have "demo_appended room = (demo_out room)\<lparr>x_a := a, x_calls := x_calls (demo_out room) + 1,
      x_acc := x_acc (demo_out room) @ [(1001, [7])]\<rparr>"
    by (simp add: demo_appended_def a) (simp add: demo_out_def)
  with wstep.append [OF a, of timely] show ?thesis by (simp add: r_into_rtranclp)
qed

lemma demo_appended_fields:
  "x_calls (demo_appended room) = 1" "x_loop (demo_appended room) = WSelect"
  "x_frames (demo_appended room) = frame 1001 [7] 0" "x_sent (demo_appended room) = []"
  "w_b (a_w (x_a (demo_appended room))) = frame 1001 [7] 0" "a_wd (x_a (demo_appended room)) = 0"
  "w_err (a_w (x_a (demo_appended room))) = None"
  "c_room (conn_of (x_a (demo_appended room))) = room" "\<not> c_closed (conn_of (x_a (demo_appended room)))"
  by (simp_all add: demo_appended_def demo_out_def x_frames_def x_sent_def write_append_def
      writer_Write_def agent_New_def writer_New_def frame_buf_frame conn_of_def Let_def)

lemma demo_woken_run: "(wint timely ^^ 4) (demo_appended room) (demo_woken room)"
proof -
  let ?s = "demo_appended room"
  let ?t = "?s\<lparr>x_a := agent_notify False (x_a ?s), x_calls := 0\<rparr>"
  let ?u = "?t\<lparr>x_a := agent_recv (x_a ?t), x_loop := WPop\<rparr>"
  obtain pc a where pop: "loop_pop (x_a ?u) = (pc, a)" by fastforce
  then have pc: "pc = WFlush (frame 1001 [7] 0)"
    by (cases rule: loop_pop_cases) (simp_all add: demo_appended_fields frame_def)
  let ?v = "?u\<lparr>x_a := a, x_loop := pc\<rparr>"
  obtain pc' a' where flush: "loop_flush (frame 1001 [7] 0) a = (pc', a')" by fastforce
  have "wint timely ?s ?t"
    by (rule wint.notify) (simp_all add: demo_appended_fields)
  moreover have "wint timely ?t ?u"
    by (rule wint.wake) (simp_all add: demo_appended_fields agent_notify_wd wdCap_def)
  moreover have "wint timely ?u ?v"
    using pop by (intro wint.pop) simp_all
  moreover have "wint timely ?v (?v\<lparr>x_a := a', x_loop := pc'\<rparr>)"
    using flush pc by (intro wint.flush) simp_all
  moreover have "demo_woken room = ?v\<lparr>x_a := a', x_loop := pc'\<rparr>"
    using pop flush by (simp add: demo_woken_def Let_def)
  ultimately show ?thesis by (auto simp: numeral_eq_Suc intro!: relcomppI)
qed

lemma demo_woken_idle:
  "x_calls (demo_woken None) = 0" "a_wd (x_a (demo_woken None)) = 0" "x_loop (demo_woken None) = WSelect"
proof -
  let ?a = "agent_recv (agent_notify False (x_a (demo_appended None)))"
  have a: "a_wd ?a = 0" "w_err (a_w ?a) = None" "c_room (conn_of ?a) = None" "\<not> c_closed (conn_of ?a)"
    using demo_appended_fields [of None]
    by (simp_all add: agent_recv_def agent_notify_def wdCap_def conn_of_def)
  obtain pc a' where pop: "loop_pop ?a = (pc, a')" by fastforce
  then have a': "a_wd a' = 0" "w_err (a_w a') = None" "conn_of a' = conn_of ?a"
    using a by (auto elim: loop_pop_cases)
  obtain pc' a'' where flush: "loop_flush (frame 1001 [7] 0) a' = (pc', a'')" by fastforce
  note f = loop_flush_healthy [OF this a'(2)]
  show "x_calls (demo_woken None) = 0" "a_wd (x_a (demo_woken None)) = 0" "x_loop (demo_woken None) = WSelect"
    using pop flush f a a' by (simp_all add: demo_woken_def Let_def)
qed

text \<open>C2: whatever the interleaving of writers, write loop, cancellation and hang-up, and
  whatever the connection does, the bytes that have gone out are a prefix of the frames of the
  accepted messages in the order they were accepted: no frame is torn, duplicated or overtaken.\<close>

theorem write_in_order:
  assumes "wstart s" and "wreach timely s t"
  shows "prefix (x_sent t) (x_frames t)"
proof -
  have "stream_inv t" using wreach_inv [OF assms(2,1)] by simp
  then show ?thesis
    by (auto simp: stream_inv_def split: option.splits dest: sym)
qed

theorem write_in_order_witness:
  "prefix (x_sent (demo_woken (Some (3, SysConnReset)))) (frame 1001 [7] 0)"
proof -
  have "x_frames (demo_woken room) = x_frames (demo_appended room)" for room
    by (simp add: demo_woken_def x_frames_def case_prod_beta Let_def)
  with write_in_order [OF demo_out_start [of "Some (3, SysConnReset)"]
      rtranclp_trans [OF demo_appended_step wint_wreach [OF demo_woken_run]]]
  show ?thesis by (simp add: demo_appended_fields)
qed

text \<open>C9: as long as a writer's ticker only fires on a full channel, no wake-up is lost: on a
  healthy connection the steps of the pipeline come to an end within a bound, and when they do
  everything accepted has been sent.\<close>

theorem write_drains:
  assumes "wstart s" and "wreach True s t" and "healthy t" and "(wint True ^^ n) t u"
  shows "n \<le> wmeas t \<and> ((\<nexists>v. wint True u v) \<longrightarrow> x_sent u = x_frames t)"
proof -
  note run = wint_run [OF assms(4,3)]
  have "wreach True s u" using assms(2) wint_wreach [OF assms(4)] by simp
  with wreach_inv assms(1) have inv: "stream_inv u" "wake_inv u" by blast+
  have "x_sent u = x_frames t" if stuck: "\<nexists>v. wint True u v"
  proof -
    have h: "w_err (a_w (x_a u)) = None" using run by (simp add: healthy_def)
    have "healthy u" using run by simp
    from wint_stuck [OF this stuck] h inv(2) have "w_b (a_w (x_a u)) = []" "x_loop u = WSelect"
      by (simp_all add: wake_inv_def)
    with h inv(1) have "x_sent u = x_frames u" by (simp add: stream_inv_def popped_def)
    then show ?thesis using run by (simp add: x_frames_def)
  qed
  moreover have "n \<le> wmeas t" using run by linarith
  ultimately show ?thesis by blast
qed

theorem write_drains_witness:
  "4 \<le> wmeas (demo_appended None) \<and> x_sent (demo_woken None) = frame 1001 [7] 0"
proof -
  have h: "healthy (demo_appended None)"
    by (simp add: healthy_def demo_appended_fields)
  have "\<not> wint True (demo_woken None) v" for v
    using demo_woken_idle by (auto elim!: wint.cases)
  with write_drains [OF demo_out_start demo_appended_step h demo_woken_run] show ?thesis
    by (simp add: demo_appended_fields)
qed

text \<open>Without that assumption the wake-up of a message can be lost: when the ticker of the
  \<open>select\<close> has already fired, the accepted message stays in the buffer of a healthy connection
  with nothing left to do, although the comment in \<open>Write\<close> says the notification ensures
  delivery.\<close>

lemma write_lost_wakeup:
  "\<exists>t. wstart (demo_out None) \<and> wreach False (demo_out None) t \<and> healthy t \<and>
     (\<nexists>u. wint False t u) \<and> x_frames t = frame 1001 [7] 0 \<and> x_sent t = []"
proof -
  let ?s = "demo_appended None"
  let ?t = "?s\<lparr>x_a := agent_notify True (x_a ?s), x_calls := 0\<rparr>"
  have "wint False ?s ?t" by (rule wint.notify) (simp_all add: demo_appended_fields)
  then have "wreach False (demo_out None) ?t"
    using demo_appended_step [of False None] by (blast intro: wstep.inner rtranclp.rtrancl_into_rtrancl)
  moreover have "healthy ?t" by (simp add: healthy_def demo_appended_fields)
  moreover have "\<not> wint False ?t u" for u
    by (auto elim!: wint.cases simp: demo_appended_fields agent_notify_wd)
  moreover have "x_frames ?t = frame 1001 [7] 0" "x_sent ?t = []"
    using demo_appended_fields(3,4) [of None] by (simp_all add: x_frames_def x_sent_def)
  ultimately show ?thesis using demo_out_start by blast
qed

end
