(* ===== verification/Plugin_Steps.thy ===== *)
theory Plugin_Steps
  imports Plugins
begin

text \<open>
  The goroutines that \<open>ConcurrentMiddle\<close> starts, interleaved. One job runs through the rest
  of the chain in the atomic steps that other goroutines can see: each access to a shared
  counter, the request, the reply, the statistics, the deferred decrement. Running the
  steps of one job without interruption is \<open>run_job\<close>; a system of one agent's jobs lets
  them interleave in any order, while its read loop accepts further messages.
\<close>

section \<open>One job, step by step\<close>

datatype jpc =
    JNew
  | JCas int
  | JAdd int
  | JSend int u32
  | JReply int http_outcome
  | JLog int "goerr option"
  | JEnd "goerr option go"
  | JAlert "goerr option go"
  | JDone

fun job_step :: "env \<Rightarrow> msg \<Rightarrow> jpc \<Rightarrow> gst \<Rightarrow> jpc \<times> gst" where
  "job_step e m JNew g =
     (let g = on_met (\<lambda>x. x\<lparr>CountPublicHTTPRequest := CountPublicHTTPRequest x + 1\<rparr>) g
      in if e_ENV e = EnvDev \<and> msg_ID m = 1001
         then (case agent_Write (e_grow e) (e_late e) 1001 (msg_Body m) (g_agent g) of
                 (r, a) \<Rightarrow> (JEnd (Ret r), g\<lparr>g_agent := a\<rparr>))
         else (JCas (g_clock g), g))"
| "job_step e m (JCas st) g =
     (case agent_Get ''sequenceID'' (g_agent g) of
        None \<Rightarrow> (JSend st 0, g)
      | Some (AtomicUint32 v) \<Rightarrow>
          (JAdd st, on_agent (agent_Set ''sequenceID'' (AtomicUint32 (seq_cas v))) g)
      | Some _ \<Rightarrow> (JEnd (Panic ''nil pointer dereference''), g))"
| "job_step e m (JAdd st) g =
     (case agent_Get ''sequenceID'' (g_agent g) of
        Some (AtomicUint32 v) \<Rightarrow>
          (JSend st (seq_add v), on_agent (agent_Set ''sequenceID'' (AtomicUint32 (seq_add v))) g)
      | _ \<Rightarrow> (JEnd (Panic ''nil pointer dereference''), g))"
| "job_step e m (JSend st sq) g =
     (case http_send e (lua_request e sq m (g_agent g)) g of (out, g) \<Rightarrow> (JReply st out, g))"
| "job_step e m (JReply st out) g =
     (case http_reply e out g of
        (Ret r, g) \<Rightarrow> (JLog st r, g)
      | (Panic p, g) \<Rightarrow> (JEnd (Panic p), g))"
| "job_step e m (JLog st err) g = (case log_done m st err g of (r, g) \<Rightarrow> (JEnd r, g))"
| "job_step e m (JEnd r) g = (JAlert r, rate_end g)"
| "job_step e m (JAlert r) g = (JDone, job_alert m r g)"
| "job_step e m JDone g = (JDone, g)"

fun job_run :: "env \<Rightarrow> msg \<Rightarrow> nat \<Rightarrow> jpc \<Rightarrow> gst \<Rightarrow> jpc \<times> gst" where
  "job_run e m 0 pc g = (pc, g)"
| "job_run e m (Suc n) pc g = (case job_step e m pc g of (pc, g) \<Rightarrow> job_run e m n pc g)"

lemma job_run_JDone [simp]: "job_run e m n JDone g = (JDone, g)"
  by (induction n) simp_all

lemma job_run_JEnd: "job_run e m (Suc (Suc n)) (JEnd r) g = (JDone, job_alert m r (rate_end g))"
  by simp

text \<open>Eight steps finish a job, and do what the composed middlewares do.\<close>

lemma http_reply_Ret: "\<exists>r g'. http_reply e out g = (Ret r, g')"
  by (auto simp: http_reply_def Let_def split: http_outcome.splits)

lemma set_agent_same [simp]: "g\<lparr>g_agent := g_agent g\<rparr> = g"
  by simp

lemma next_seq_cases:
  assumes "next_seq (g_agent g) = (r, a)"
  obtains (none) "agent_Get ''sequenceID'' (g_agent g) = None" "r = Ret 0" "a = g_agent g"
    | (num) v where "agent_Get ''sequenceID'' (g_agent g) = Some (AtomicUint32 v)"
        "r = Ret (seq_add (seq_cas v))"
        "a = agent_Set ''sequenceID'' (AtomicUint32 (seq_add (seq_cas v))) (g_agent g)"
    | (bad) x where "agent_Get ''sequenceID'' (g_agent g) = Some x" "\<forall>v. x \<noteq> AtomicUint32 v"
        "r = Panic ''nil pointer dereference''" "a = g_agent g"
  using assms by (auto simp: next_seq_def Let_def split: option.splits any.splits)

lemma job_step_JCas:
  "\<forall>v. x \<noteq> AtomicUint32 v \<Longrightarrow> agent_Get ''sequenceID'' (g_agent g) = Some x \<Longrightarrow>
     job_step e m (JCas st) g = (JEnd (Panic ''nil pointer dereference''), g)"
  by (cases x) simp_all

definition log_after :: "msg \<Rightarrow> int \<Rightarrow> goerr option go \<times> gst \<Rightarrow> goerr option go \<times> gst" where
  "log_after m st rg =
     (case rg of (Panic p, g) \<Rightarrow> (Panic p, g) | (Ret err, g) \<Rightarrow> log_done m st err g)"

definition finish :: "msg \<Rightarrow> goerr option go \<times> gst \<Rightarrow> jpc \<times> gst" where
  "finish m rg = (JDone, job_alert m (fst rg) (rate_end (snd rg)))"

lemma job_run_JReply:
  "job_run e m (Suc (Suc (Suc (Suc n)))) (JReply st out) g =
     finish m (log_after m st (http_reply e out g))"
  by (auto simp: finish_def log_after_def split: prod.splits go.splits)

lemma job_run_JSend:
  "job_run e m (Suc (Suc (Suc (Suc (Suc n))))) (JSend st sq) g =
     finish m (log_after m st
       (let (out, g) = http_send e (lua_request e sq m (g_agent g)) g in http_reply e out g))"
  by (simp add: job_run_JReply Let_def split: prod.splits del: job_run.simps(2)
      add: job_run.simps(2) [of e m "Suc (Suc (Suc (Suc n)))"])

lemma job_run_JCas:
  "job_run e m (Suc (Suc (Suc (Suc (Suc (Suc (Suc n))))))) (JCas st) g =
     finish m (log_after m st (ForwadHttp e m g))"
proof -
  let ?n = "Suc (Suc (Suc (Suc (Suc n))))"
  obtain r a where ns: "next_seq (g_agent g) = (r, a)" by fastforce
  then show ?thesis
  proof (cases rule: next_seq_cases)
    case none
    then show ?thesis
      using ns by (simp add: ForwadHttp_def job_run_JSend del: job_run.simps(2)
          add: job_run.simps(2) [of e m "Suc ?n"])
  next
    case (num v)
    then show ?thesis
      using ns by (simp add: ForwadHttp_def job_run_JSend on_agent_def agent_Get_def agent_Set_def
          del: job_run.simps(2) add: job_run.simps(2) [of e m "Suc ?n"] job_run.simps(2) [of e m ?n])
  next
    case (bad x)
    then show ?thesis
      using ns by (simp add: ForwadHttp_def job_step_JCas finish_def log_after_def
          del: job_step.simps(2))
  qed
qed

lemma job_run_whole: "job_run e m 8 JNew g = (JDone, run_job e m g)"
proof -
  have eight: "(8 :: nat) = Suc (Suc (Suc (Suc (Suc (Suc (Suc (Suc 0)))))))" by simp
  let ?seven = "Suc (Suc (Suc (Suc (Suc (Suc (Suc 0))))))"
  show ?thesis
  proof (cases "e_ENV e = EnvDev \<and> msg_ID m = 1001")
    case True
    then show ?thesis
      unfolding eight
      by (auto simp: run_job_def concurrent_go_def chain_tail_unfold RateLimitEndMiddle_def
          StressTest_def Let_def split: prod.splits option.splits)
  next
    case False
    define h where "h = on_met (\<lambda>x. x\<lparr>CountPublicHTTPRequest := CountPublicHTTPRequest x + 1\<rparr>) g"
    have run: "run_job e m g = snd (finish m (log_after m (g_clock g) (ForwadHttp e m h)))"
      using False
      by (auto simp: run_job_def concurrent_go_def chain_tail_unfold RateLimitEndMiddle_def
          StressTest_def LogMiddle_def finish_def log_after_def h_def Let_def
          split: prod.splits go.splits)
    have "job_step e m JNew g = (JCas (g_clock g), h)"
      using False by (auto simp: h_def)
    then have "job_run e m 8 JNew g = job_run e m ?seven (JCas (g_clock g)) h"
      unfolding eight by (simp only: job_run.simps(2) prod.case)
    then show ?thesis by (simp only: job_run_JCas run) (simp add: finish_def)
  qed
qed

section \<open>All jobs of one agent, interleaved\<close>

record conc =
  k_g :: gst
  k_jobs :: "(msg \<times> jpc) list"

text \<open>
  A message is received (the read loop runs the chain up to the goroutine; the agent may
  have been disabled since the loop looked), a spawned
  goroutine starts, a started one makes its next step. Every other goroutine of the gateway
  (the write loop, the HTTP handlers, the finalizer, other agents) may change anything but
  the counter of running requests and this agent's goroutines: no other code touches them.
\<close>

inductive conc_step :: "conc \<Rightarrow> conc \<Rightarrow> bool" where
  recv: "PluginsMain e m (k_g s) = (r, g) \<Longrightarrow>
     conc_step s (s\<lparr>k_g := g\<rparr>)"
| spawn: "g_jobs (k_g s) = ms @ m # ms' \<Longrightarrow>
     conc_step s (s\<lparr>k_g := (k_g s)\<lparr>g_jobs := ms @ ms'\<rparr>, k_jobs := k_jobs s @ [(m, JNew)]\<rparr>)"
| run: "k_jobs s = js @ (m, pc) # js' \<Longrightarrow> pc \<noteq> JDone \<Longrightarrow> job_step e m pc (k_g s) = (pc', g) \<Longrightarrow>
     conc_step s (s\<lparr>k_g := g, k_jobs := js @ (m, pc') # js'\<rparr>)"
| other: "a_storage (g_agent g) ''concurrent'' = a_storage (g_agent (k_g s)) ''concurrent'' \<Longrightarrow>
     g_jobs g = g_jobs (k_g s) \<Longrightarrow> conc_step s (s\<lparr>k_g := g\<rparr>)"

definition conc_start :: "conc \<Rightarrow> bool" where
  "conc_start s \<longleftrightarrow> a_storage (g_agent (k_g s)) ''concurrent'' = None \<and> g_jobs (k_g s) = [] \<and>
     k_jobs s = []"

text \<open>Goroutines that have not yet run the deferred decrement.\<close>

fun in_flight_pc :: "jpc \<Rightarrow> bool" where
  "in_flight_pc (JAlert r) = False"
| "in_flight_pc JDone = False"
| "in_flight_pc pc = True"

definition in_flight :: "conc \<Rightarrow> nat" where
  "in_flight s =
     length (g_jobs (k_g s)) + length (filter (\<lambda>j. in_flight_pc (snd j)) (k_jobs s))"

section \<open>What the steps leave alone\<close>

definition conc_part :: "gst \<Rightarrow> any option \<times> msg list" where
  "conc_part g = (a_storage (g_agent g) ''concurrent'', g_jobs g)"

lemma conc_part_simps [simp]:
  "conc_part (on_met h g) = conc_part g"
  "conc_part (AlertAuto x g) = conc_part g"
  "conc_part (g\<lparr>g_reqs := rs, g_clock := n\<rparr>) = conc_part g"
  "conc_part (on_agent (agent_Set ''sequenceID'' v) g) = conc_part g"
  "conc_part (on_agent (\<lambda>a. snd (agent_Write grow late i b a)) g) = conc_part g"
  by (simp_all add: conc_part_def on_met_def AlertAuto_def agent_Set_def)

lemma conc_part_http_send: "http_send e req g = (out, g') \<Longrightarrow> conc_part g' = conc_part g"
  by (auto simp: http_send_def split: prod.splits http_outcome.splits)

lemma conc_part_http_reply: "http_reply e out g = (r, g') \<Longrightarrow> conc_part g' = conc_part g"
  by (auto simp: http_reply_def Let_def split: http_outcome.splits if_splits)

lemma conc_part_log_done: "log_done m st err g = (r, g') \<Longrightarrow> conc_part g' = conc_part g"
  by (auto simp: log_done_def Let_def split: go.splits if_splits)

lemma conc_part_job_alert [simp]: "conc_part (job_alert m r g) = conc_part g"
  by (simp add: job_alert_def split: go.splits option.splits)

lemma conc_part_Write:
  "agent_Write grow late i b (g_agent g) = (r, a) \<Longrightarrow> conc_part (g\<lparr>g_agent := a\<rparr>) = conc_part g"
  using agent_Write_frame(4) [of grow late i b "g_agent g"] by (simp add: conc_part_def)

lemma job_step_conc:
  assumes "job_step e m pc g = (pc', g')" and "\<forall>r. pc \<noteq> JEnd r"
  shows "conc_part g' = conc_part g \<and> in_flight_pc pc' = in_flight_pc pc"
  using assms
proof (cases pc)
  case JNew
  then show ?thesis
    using assms conc_part_Write [where g = "on_met _ g"]
    by (auto simp: Let_def split: if_splits prod.splits)
next
  case (JEnd r)
  with assms(2) show ?thesis by simp
qed (auto dest: conc_part_http_send conc_part_http_reply conc_part_log_done
    split: option.splits any.splits prod.splits go.splits)

section \<open>The counter is the number of goroutines in flight\<close>

definition rate_inv :: "conc \<Rightarrow> bool" where
  "rate_inv s \<longleftrightarrow>
     (case a_storage (g_agent (k_g s)) ''concurrent'' of
        None \<Rightarrow> in_flight s = 0
      | Some (AtomicInt32 n) \<Rightarrow> sint n = int (in_flight s) \<and> in_flight s \<le> 11
      | Some _ \<Rightarrow> False)"

lemma sint_small_add: "0 \<le> sint (n :: 32 word) \<Longrightarrow> sint n \<le> 10 \<Longrightarrow> sint (n + 1) = sint n + 1"
  by (simp add: sint_word_ariths signed_take_bit_int_eq_self)

lemma sint_small_sub: "1 \<le> sint (n :: 32 word) \<Longrightarrow> sint n \<le> 11 \<Longrightarrow> sint (n - 1) = sint n - 1"
  by (simp add: sint_word_ariths signed_take_bit_int_eq_self)

text \<open>The invariant over the parts of the state it reads.\<close>

definition rate_ok :: "any option \<Rightarrow> nat \<Rightarrow> bool" where
  "rate_ok v k \<longleftrightarrow>
     (case v of
        None \<Rightarrow> k = 0
      | Some (AtomicInt32 n) \<Rightarrow> sint n = int k \<and> k \<le> 11
      | Some _ \<Rightarrow> False)"

lemma rate_inv_parts:
  "rate_inv s \<longleftrightarrow> rate_ok (fst (conc_part (k_g s))) (in_flight s)"
  by (simp add: rate_inv_def rate_ok_def conc_part_def)

lemma RateLimit_parts:
  assumes "PluginsMain e m g = (r, g')" and "rate_ok (fst (conc_part g)) k" and "length (g_jobs g) \<le> k"
  shows "r = Ret None \<and>
    rate_ok (fst (conc_part g')) (k + (length (g_jobs g') - length (g_jobs g))) \<and>
    (g_jobs g' = g_jobs g @ [m] \<and> k < 11 \<or> g_jobs g' = g_jobs g \<and> k = 11)"
proof (cases "a_storage (g_agent g) ''concurrent''")
  case None
  then show ?thesis
    using assms
    by (auto simp: PluginsMain_unfold RateLimitMiddle_def ConcurrentMiddle_def rateLimit_def
        agent_Get_def agent_Set_def conc_part_def rate_ok_def Let_def split: if_splits)
next
  case (Some v)
  with assms(2) obtain n where v: "v = AtomicInt32 n" and n: "sint n = int k" and k: "k \<le> 11"
    by (auto simp: rate_ok_def conc_part_def split: any.splits)
  show ?thesis
    using assms(1) Some v n k
    by (auto simp: PluginsMain_unfold RateLimitMiddle_def ConcurrentMiddle_def rateLimit_def
        agent_Get_def agent_Set_def conc_part_def rate_ok_def sint_small_add Let_def
        split: if_splits)
qed

lemma rate_end_parts:
  assumes "rate_ok (fst (conc_part g)) (Suc k)"
  shows "rate_ok (fst (conc_part (rate_end g))) k \<and> g_jobs (rate_end g) = g_jobs g"
proof -
  from assms obtain n where "a_storage (g_agent g) ''concurrent'' = Some (AtomicInt32 n)"
    and "sint n = int (Suc k)" and "Suc k \<le> 11"
    by (auto simp: rate_ok_def conc_part_def split: option.splits any.splits)
  then show ?thesis
    by (simp add: rate_end_def agent_Get_def agent_Set_def conc_part_def rate_ok_def sint_small_sub)
qed

lemma in_flight_run:
  "k_jobs s = js @ (m, pc) # js' \<Longrightarrow>
     in_flight s = length (g_jobs (k_g s)) + length (filter (\<lambda>j. in_flight_pc (snd j)) (js @ js'))
       + (if in_flight_pc pc then 1 else 0)"
  by (simp add: in_flight_def)

lemma conc_step_rate_inv:
  assumes "conc_step s t" and "rate_inv s"
  shows "rate_inv t"
  using assms
proof (induction rule: conc_step.induct)
  case (recv e m s r g)
  have "length (g_jobs (k_g s)) \<le> in_flight s" by (simp add: in_flight_def)
  from RateLimit_parts [OF recv(1) recv(2) [unfolded rate_inv_parts] this] show ?case
    by (auto simp: rate_inv_parts in_flight_def)
next
  case (spawn s ms m ms')
  then show ?case by (simp add: rate_inv_parts in_flight_def conc_part_def)
next
  case (run s js m pc js' e pc' g)
  let ?t = "s\<lparr>k_g := g, k_jobs := js @ (m, pc') # js'\<rparr>"
  have t: "k_jobs ?t = js @ (m, pc') # js'" "k_g ?t = g" by simp_all
  show ?case
  proof (cases "\<exists>r. pc = JEnd r")
    case True
    then obtain r where r: "pc = JEnd r" by blast
    then have g: "g = rate_end (k_g s)" and pc': "pc' = JAlert r" using run(3) by simp_all
    let ?k = "length (g_jobs (k_g s)) + length (filter (\<lambda>j. in_flight_pc (snd j)) (js @ js'))"
    have "in_flight s = Suc ?k" using in_flight_run [OF run(1)] r by simp
    then have "rate_ok (fst (conc_part g)) ?k \<and> g_jobs g = g_jobs (k_g s)"
      using rate_end_parts [of "k_g s" ?k] run(4) by (simp add: rate_inv_parts g)
    then show ?thesis
      using in_flight_run [OF t(1)] t(2) pc' by (simp add: rate_inv_parts)
  next
    case False
    with job_step_conc [OF run(3)] have "conc_part g = conc_part (k_g s)"
      and "in_flight_pc pc' = in_flight_pc pc" by auto
    then show ?thesis
      using in_flight_run [OF run(1)] in_flight_run [OF t(1)] t(2) run(4)
      by (simp add: rate_inv_parts conc_part_def)
  qed
next
  case (other g s)
  then show ?case by (simp add: rate_inv_parts in_flight_def conc_part_def)
qed

inductive conc_reach :: "conc \<Rightarrow> conc \<Rightarrow> bool" for s where
  here: "conc_reach s s"
| step: "conc_reach s t \<Longrightarrow> conc_step t u \<Longrightarrow> conc_reach s u"

lemma rate_inv_start: "conc_start s \<Longrightarrow> rate_inv s"
  by (simp add: conc_start_def rate_inv_def in_flight_def)

lemma conc_reach_rate_inv: "conc_reach s t \<Longrightarrow> rate_inv s \<Longrightarrow> rate_inv t"
  by (induction rule: conc_reach.induct) (auto intro: conc_step_rate_inv)

end
