(* ===== verification/System.thy ===== *)
theory System
  imports Http_Api Agent_Write Plugin_Steps
begin

text \<open>
  The whole gateway process: the table of agents, every agent with its goroutines, the
  shared counters, the backend requests, the HTTP handlers in progress. The operations here
  are the accept loop and \<open>Close\<close> of \<open>src/pkg/gateway/gateway.go\<close> and \<open>Run\<close> and
  \<open>finalizer\<close> of \<open>src/pkg/agent/agent.go\<close>, in the atomic steps other goroutines can see.
\<close>

section \<open>State\<close>

text \<open>Where an agent's read loop stands, and its finalizer goroutine.\<close>

datatype rpc = RRead | RGot msg | RExit loop_exit | RDone

datatype fpc = FNone | FWait | FRemove | FClose | FCheck | FForward | FDone

record slot =
  sl_agent :: agent
  sl_jobs :: "msg list"
  sl_run :: "(msg \<times> jpc) list"
  sl_r :: rpc
  sl_w :: wpc
  sl_fin :: fpc

record sys =
  y_gw :: "nat gateway"
  y_slots :: "slot list"
  y_met :: metrics
  y_alerts :: "alert list"
  y_reqs :: "http_req list"
  y_clock :: int
  y_threads :: "act list list"
  y_accept :: "nat option"
  y_crashed :: bool

definition sys_init :: sys where
  "sys_init = \<lparr>y_gw = gateway_New, y_slots = [], y_met = metrics_init, y_alerts = [], y_reqs = [],
     y_clock = 0, y_threads = [], y_accept = None, y_crashed = False\<rparr>"

text \<open>What the goroutines of agent \<open>i\<close> work on, taken out of the system and put back.\<close>

record loc =
  l_g :: gst
  l_run :: "(msg \<times> jpc) list"
  l_r :: rpc
  l_w :: wpc

definition focus :: "nat \<Rightarrow> sys \<Rightarrow> loc" where
  "focus i s =
     (let sl = y_slots s ! i
      in \<lparr>l_g = \<lparr>g_agent = sl_agent sl, g_met = y_met s, g_alerts = y_alerts s, g_reqs = y_reqs s,
                 g_clock = y_clock s, g_jobs = sl_jobs sl\<rparr>,
          l_run = sl_run sl, l_r = sl_r sl, l_w = sl_w sl\<rparr>)"

definition put_back :: "nat \<Rightarrow> loc \<Rightarrow> sys \<Rightarrow> sys" where
  "put_back i l s =
     s\<lparr>y_slots := (y_slots s)[i := (y_slots s ! i)
          \<lparr>sl_agent := g_agent (l_g l), sl_jobs := g_jobs (l_g l), sl_run := l_run l, sl_r := l_r l,
           sl_w := l_w l\<rparr>],
       y_met := g_met (l_g l), y_alerts := g_alerts (l_g l), y_reqs := g_reqs (l_g l),
       y_clock := g_clock (l_g l)\<rparr>"

definition on_slot :: "nat \<Rightarrow> (slot \<Rightarrow> slot) \<Rightarrow> sys \<Rightarrow> sys" where
  "on_slot i f s = s\<lparr>y_slots := (y_slots s)[i := f (y_slots s ! i)]\<rparr>"

definition set_fin :: "nat \<Rightarrow> fpc \<Rightarrow> sys \<Rightarrow> sys" where
  "set_fin i pc = on_slot i (\<lambda>sl. sl\<lparr>sl_fin := pc\<rparr>)"

definition on_slot_agent :: "nat \<Rightarrow> (agent \<Rightarrow> agent) \<Rightarrow> sys \<Rightarrow> sys" where
  "on_slot_agent i f = on_slot i (\<lambda>sl. sl\<lparr>sl_agent := f (sl_agent sl)\<rparr>)"

definition count_conn :: "int \<Rightarrow> metrics \<Rightarrow> metrics" where
  "count_conn d m = m\<lparr>CountConnection := CountConnection m + d\<rparr>"

section \<open>Run: how the loops end\<close>

text \<open>
  The goroutines around the two loops report an error unless it is an ordinary end of a
  connection; the read loop also tolerates a time-out. Both cancel the context. A panic is
  reported inside the loop, which then returns nil.
\<close>

definition AlertLowFrequency :: "string \<Rightarrow> alert \<Rightarrow> gst \<Rightarrow> gst" where
  "AlertLowFrequency key x g = (if trim_space key = '''' then g else AlertAuto x g)"

definition read_exit :: "(goerr \<Rightarrow> string) \<Rightarrow> loop_exit \<Rightarrow> gst \<Rightarrow> gst" where
  "read_exit err_text r g =
     (let a = g_agent g;
          g = (case r of
                 Recovered p \<Rightarrow> AlertAuto (AgentPanic (a_cid a) (a_address a) p) g
               | Exited err \<Rightarrow>
                   if err = IoEOF \<or> err = SysConnReset \<or> err = NetClosed then g
                   else if err = NetTimeout then g
                   else AlertLowFrequency (err_text err) (LoopReadExit (a_address a) (a_cid a) err) g)
      in on_agent agent_Close g)"

definition write_exit :: "(goerr \<Rightarrow> string) \<Rightarrow> goerr option \<Rightarrow> gst \<Rightarrow> gst" where
  "write_exit err_text r g =
     (let a = g_agent g;
          g = (case r of
                 None \<Rightarrow> g
               | Some err \<Rightarrow>
                   if err = IoEOF \<or> err = SysConnReset \<or> err = NetClosed then g
                   else AlertLowFrequency (err_text err) (LoopWriteExit (a_address a) (a_cid a) err) g)
      in on_agent agent_Close g)"

section \<open>The steps of an agent's goroutines\<close>

text \<open>
  The read loop reads a frame, looks at \<open>disable\<close>, runs the plugin chain, or ends; the
  write loop as in \<open>Agent_Write\<close>; the jobs as in \<open>Plugin_Steps\<close>.
\<close>

inductive loc_step :: "(goerr \<Rightarrow> string) \<Rightarrow> env \<Rightarrow> loc \<Rightarrow> loc \<Rightarrow> bool" for err_text e where
  read_frame: "l_r l = RRead \<Longrightarrow> read_frame (conn_of (g_agent (l_g l))) = Frame m c \<Longrightarrow>
     loc_step err_text e l (l\<lparr>l_g := on_agent (set_conn c) (l_g l),
       l_r := (if a_disable (g_agent (l_g l)) then RRead else RGot m)\<rparr>)"
| read_stop: "l_r l = RRead \<Longrightarrow> read_frame (conn_of (g_agent (l_g l))) = Stop err c \<Longrightarrow>
     loc_step err_text e l (l\<lparr>l_g := on_agent (set_conn c) (l_g l), l_r := RExit (Exited err)\<rparr>)"
| chain: "l_r l = RGot m \<Longrightarrow> PluginsMain e m (l_g l) = (r, g) \<Longrightarrow>
     loc_step err_text e l (l\<lparr>l_g := g, l_r :=
       (case r of Ret None \<Rightarrow> RRead | Ret (Some err) \<Rightarrow> RExit (Exited err) | Panic p \<Rightarrow> RExit (Recovered p))\<rparr>)"
| read_end: "l_r l = RExit r \<Longrightarrow>
     loc_step err_text e l (l\<lparr>l_g := read_exit err_text r (l_g l), l_r := RDone\<rparr>)"
| wake: "l_w l = WSelect \<Longrightarrow> 0 < a_wd (g_agent (l_g l)) \<Longrightarrow>
     loc_step err_text e l (l\<lparr>l_g := on_agent agent_recv (l_g l), l_w := WPop\<rparr>)"
| quit: "l_w l = WSelect \<Longrightarrow> a_done (g_agent (l_g l)) \<Longrightarrow>
     loc_step err_text e l (l\<lparr>l_w := WExit None\<rparr>)"
| pop: "l_w l = WPop \<Longrightarrow> loop_pop (g_agent (l_g l)) = (pc, a) \<Longrightarrow>
     loc_step err_text e l (l\<lparr>l_g := on_agent (\<lambda>_. a) (l_g l), l_w := pc\<rparr>)"
| flush: "l_w l = WFlush b \<Longrightarrow> loop_flush b (g_agent (l_g l)) = (pc, a) \<Longrightarrow>
     loc_step err_text e l (l\<lparr>l_g := on_agent (\<lambda>_. a) (l_g l), l_w := pc\<rparr>)"
| write_end: "l_w l = WExit r \<Longrightarrow>
     loc_step err_text e l (l\<lparr>l_g := write_exit err_text r (l_g l), l_w := WGone\<rparr>)"
| spawn: "g_jobs (l_g l) = ms @ m # ms' \<Longrightarrow>
     loc_step err_text e l (l\<lparr>l_g := (l_g l)\<lparr>g_jobs := ms @ ms'\<rparr>, l_run := l_run l @ [(m, JNew)]\<rparr>)"
| run: "l_run l = js @ (m, pc) # js' \<Longrightarrow> pc \<noteq> JDone \<Longrightarrow> job_step e m pc (l_g l) = (pc', g) \<Longrightarrow>
     loc_step err_text e l (l\<lparr>l_g := g, l_run := js @ (m, pc') # js'\<rparr>)"

section \<open>Accepting a connection\<close>

text \<open>
  The accept loop registers the new agent, then counts it and starts it. A panic in
  \<open>AddAgent\<close> (the table is gone) reaches \<open>AlertPanic\<close>, which panics again: the process dies.
\<close>

definition accept_add :: "int \<Rightarrow> nat \<Rightarrow> conn \<Rightarrow> string \<Rightarrow> sys \<Rightarrow> sys" where
  "accept_add now rnd c address s =
     (let (agentUID, gw) = GenerateAgentUID now rnd (y_gw s);
          agent = agent_New c address agentUID;
          i = length (y_slots s);
          s = s\<lparr>y_slots := y_slots s @
                 [\<lparr>sl_agent = agent, sl_jobs = [], sl_run = [], sl_r = RRead, sl_w = WSelect, sl_fin = FNone\<rparr>]\<rparr>
      in case AddAgent agentUID i gw of
           (Ret None, gw) \<Rightarrow> s\<lparr>y_gw := gw, y_accept := Some i\<rparr>
         | (Ret (Some err), gw) \<Rightarrow>
             on_slot_agent i (\<lambda>a. set_conn (conn_Close (conn_of a)) a)
               (s\<lparr>y_gw := gw, y_alerts := y_alerts s @ [AddAgentFail address err]\<rparr>)
         | (Panic p, gw) \<Rightarrow> s\<lparr>y_gw := gw, y_crashed := True\<rparr>)"

definition accept_run :: "nat \<Rightarrow> sys \<Rightarrow> sys" where
  "accept_run i s = set_fin i FWait (s\<lparr>y_met := count_conn 1 (y_met s), y_accept := None\<rparr>)"

section \<open>The finalizer\<close>

definition fin_count :: "nat \<Rightarrow> sys \<Rightarrow> sys" where
  "fin_count i s = set_fin i FRemove (s\<lparr>y_met := count_conn (- 1) (y_met s)\<rparr>)"

definition fin_remove :: "nat \<Rightarrow> sys \<Rightarrow> sys" where
  "fin_remove i s =
     set_fin i FClose (s\<lparr>y_gw := snd (RemoveAgent (a_cid (sl_agent (y_slots s ! i))) (y_gw s))\<rparr>)"

definition fin_close :: "nat \<Rightarrow> sys \<Rightarrow> sys" where
  "fin_close i s = set_fin i FCheck (on_slot_agent i (\<lambda>a. set_conn (conn_Close (conn_of a)) a) s)"

definition fin_check :: "nat \<Rightarrow> sys \<Rightarrow> sys" where
  "fin_check i s =
     (if a_disable (sl_agent (y_slots s ! i)) then set_fin i FDone s
      else set_fin i FForward (on_slot_agent i agent_Disable s))"

text \<open>The notification; a panic of the forward ends in the finalizer's own \<open>recover\<close>.\<close>

definition fin_forward :: "env \<Rightarrow> nat \<Rightarrow> sys \<Rightarrow> sys" where
  "fin_forward e i s =
     (let l = focus i s; (r, g) = ForwadHttp e (Msg 5006 []) (l_g l);
          g = (case r of
                 Panic p \<Rightarrow> AlertAuto (AgentPanic (a_cid (g_agent g)) (a_address (g_agent g)) p) g
               | Ret _ \<Rightarrow> g)
      in set_fin i FDone (put_back i (l\<lparr>l_g := g\<rparr>) s))"

fun fin_step :: "env \<Rightarrow> fpc \<Rightarrow> nat \<Rightarrow> sys \<Rightarrow> sys" where
  "fin_step e FWait i s = fin_count i s"
| "fin_step e FRemove i s = fin_remove i s"
| "fin_step e FClose i s = fin_close i s"
| "fin_step e FCheck i s = fin_check i s"
| "fin_step e FForward i s = fin_forward e i s"
| "fin_step e pc i s = s"

section \<open>Closing the gateway\<close>

definition sys_Close :: "sys \<Rightarrow> sys" where
  "sys_Close s =
     (let (closed, gw) = gateway_Close (y_gw s)
      in foldl (\<lambda>s i. on_slot_agent i agent_Close s) s closed \<lparr>y_gw := gw\<rparr>)"

section \<open>Actions of the HTTP handlers\<close>

fun act_step :: "env \<Rightarrow> act \<Rightarrow> sys \<Rightarrow> act list \<times> act list list \<times> sys" where
  "act_step e (ADisable i) s = ([], [], on_slot_agent i agent_Disable s)"
| "act_step e (AClose i) s = ([], [], on_slot_agent i agent_Close s)"
| "act_step e (AWrite i m b) s =
     ([], [], on_slot_agent i (\<lambda>a. snd (agent_Write (e_grow e) (e_late e) m b a)) s)"
| "act_step e (ALookupWrite connId m b pause) s =
     (case GetAgent connId (y_gw s) of
        None \<Rightarrow> ([], [], s)
      | Some i \<Rightarrow>
          ([ASleep pause], [], on_slot_agent i (\<lambda>a. snd (agent_Write (e_grow e) (e_late e) m b a)) s))"
| "act_step e (ASleep d) s = ([AUntil (y_clock s + d)], [], s)"
| "act_step e (AUntil t) s = (if t \<le> y_clock s then [] else [AUntil t], [], s)"
| "act_step e (AGo as) s = ([], [as], s)"
| "act_step e (ALog path start) s =
     (case http_leave '''' path start (y_clock s) (y_met s) of
        Ret (m, al) \<Rightarrow> ([], [], s\<lparr>y_met := m, y_alerts := y_alerts s @ al\<rparr>)
      | Panic p \<Rightarrow> ([], [], s\<lparr>y_alerts := y_alerts s @ [PrivatePanic '''' p]\<rparr>))"

definition http_start :: "string \<Rightarrow> inbound \<Rightarrow> sys \<Rightarrow> http_resp \<times> sys" where
  "http_start path r s =
     (let (resp, acts, al) = serve (y_gw s) r
      in (resp, s\<lparr>y_met := http_enter (y_met s), y_alerts := y_alerts s @ al,
                  y_threads := y_threads s @ [acts @ [ALog path (y_clock s)]]\<rparr>))"

end
