(* ===== verification/Metric_Props.thy ===== *)
theory Metric_Props
  imports Metric
begin

text \<open>
  The properties of the statistics: what the percentile of a histogram is, what the table of
  histograms reports after any sequence of samples and resets, and what one periodic
  collection reads and clears.
\<close>

section \<open>The percentile of a list of samples\<close>

text \<open>
  The specification: samples above the last bucket are dropped; the percentile is the first
  bucket with at least 99 percent of the others at or below it, and 0 when there are none.
\<close>

definition counted :: "int list \<Rightarrow> int list" where
  "counted xs = filter (\<lambda>x. x \<le> 9999999999) xs"

definition percentile :: "int list \<Rightarrow> int" where
  "percentile xs =
     (let ys = counted xs
      in if ys = [] then 0
         else case find (\<lambda>b. 99 * int (length ys) \<le> 100 * le_count ys b) Buckets of
                Some b \<Rightarrow> b | None \<Rightarrow> 0)"

lemma Buckets_sorted: "sorted_wrt (<) Buckets"
  by (simp add: Buckets_def)

lemma Buckets_pos: "b \<in> set Buckets \<Longrightarrow> 0 < b \<and> b \<le> 9999999999"
  by (auto simp: Buckets_def)

lemma Buckets_max: "9999999999 \<in> set Buckets"
  by (simp add: Buckets_def)

lemma bucket_counted: "bucket_of Buckets x \<noteq> None \<longleftrightarrow> x \<le> 9999999999"
  using Buckets_pos Buckets_max by (auto simp: bucket_of_def find_None_iff) force

lemma le_count_counted: "b \<in> set Buckets \<Longrightarrow> le_count (counted xs) b = le_count xs b"
  using Buckets_pos [of b]
  by (auto simp: le_count_def counted_def intro!: arg_cong [where f = length] filter_cong)

lemma find_cong': "(\<And>x. x \<in> set xs \<Longrightarrow> P x = Q x) \<Longrightarrow> find P xs = find Q xs"
  by (induction xs) auto

lemma percentile_Some:
  assumes "counted xs \<noteq> []"
  obtains b where "find (\<lambda>b. 99 * int (length (counted xs)) \<le> 100 * le_count (counted xs) b) Buckets = Some b"
proof -
  have "le_count (counted xs) 9999999999 = int (length (counted xs))"
    by (auto simp: le_count_def counted_def)
  then have "find (\<lambda>b. 99 * int (length (counted xs)) \<le> 100 * le_count (counted xs) b) Buckets \<noteq> None"
    using Buckets_max by (auto simp: find_None_iff intro!: bexI [of _ 9999999999])
  then show ?thesis using that by blast
qed

lemma find_first:
  assumes "find P bs = Some b" and "sorted_wrt (<) bs"
  shows "b \<in> set bs \<and> P b \<and> (\<forall>b' \<in> set bs. b' < b \<longrightarrow> \<not> P (b' :: int))"
  using assms by (induction bs) (auto split: if_splits)

lemma percentile_least:
  assumes "counted xs \<noteq> []"
  shows "percentile xs \<in> set Buckets \<and>
    99 * int (length (counted xs)) \<le> 100 * le_count (counted xs) (percentile xs) \<and>
    (\<forall>b \<in> set Buckets. b < percentile xs \<longrightarrow> 100 * le_count (counted xs) b < 99 * int (length (counted xs)))"
proof -
  obtain b where b: "find (\<lambda>b. 99 * int (length (counted xs)) \<le> 100 * le_count (counted xs) b) Buckets = Some b"
    using percentile_Some [OF assms] .
  then have "percentile xs = b" using assms by (simp add: percentile_def)
  with find_first [OF b Buckets_sorted] show ?thesis by auto
qed

lemma p99_Out_percentile:
  assumes "hist_rep Buckets xs h" and "length xs \<le> 2 ^ 46"
  shows "p99_Out h = Ret (percentile xs)"
proof -
  have count: "p_count h = int (length (counted xs))"
    using assms(1) unfolding hist_rep_def bucket_counted counted_def by blast
  have "length (counted xs) \<le> length xs" by (simp add: counted_def)
  then have "p_count h \<le> 2 ^ 46" using assms(2) count by simp
  from p99_Out_find [OF assms(1) Buckets_sorted this] show ?thesis
    using find_cong' [of Buckets "\<lambda>b. 99 * p_count h \<le> 100 * le_count xs b"
        "\<lambda>b. 99 * p_count h \<le> 100 * le_count (counted xs) b"]
    by (simp add: percentile_def count le_count_counted Let_def)
qed

lemma percentile_pos: "0 < percentile xs \<longleftrightarrow> counted xs \<noteq> []"
  using percentile_least [of xs] Buckets_pos [of "percentile xs"]
  by (cases "counted xs = []") (auto simp: percentile_def)

section \<open>The table of histograms\<close>

lemma proto_Out_lookup:
  assumes "\<And>k h. (k, h) \<in> set pp \<Longrightarrow> \<exists>x. p99_Out h = Ret x" and "distinct (map fst pp)"
  shows "\<exists>r. proto_Out pp = Ret r \<and> set (map fst r) \<subseteq> set (map fst pp) \<and>
    (\<forall>k. map_of r k = (case map_of pp k of None \<Rightarrow> None
      | Some h \<Rightarrow> (case p99_Out h of Ret x \<Rightarrow> if 0 < x then Some x else None | Panic _ \<Rightarrow> None)))"
  using assms
proof (induction pp)
  case Nil
  then show ?case by simp
next
  case (Cons kv pp)
  obtain k h where kv: "kv = (k, h)" by fastforce
  obtain x where x: "p99_Out h = Ret x" using Cons.prems(1) [of k h] kv by auto
  have "\<And>k h. (k, h) \<in> set pp \<Longrightarrow> \<exists>x. p99_Out h = Ret x"
    using Cons.prems(1) by (meson list.set_intros(2))
  with Cons obtain r where r: "proto_Out pp = Ret r" "set (map fst r) \<subseteq> set (map fst pp)"
    "\<And>k. map_of r k = (case map_of pp k of None \<Rightarrow> None
      | Some h \<Rightarrow> (case p99_Out h of Ret x \<Rightarrow> if 0 < x then Some x else None | Panic _ \<Rightarrow> None))"
    by auto
  have "map_of pp k = None" using Cons.prems(2) kv by (simp add: map_of_eq_None_iff)
  then have "map_of r k = None" using r(3) [of k] by simp
  then show ?case using x r by (auto simp: kv)
qed

text \<open>What a represented table reports.\<close>

definition report_of :: "(string \<Rightarrow> int list option) \<Rightarrow> string \<Rightarrow> int option" where
  "report_of a k =
     (case a k of None \<Rightarrow> None
      | Some xs \<Rightarrow> if counted xs = [] then None else Some (percentile xs))"

lemma proto_Out_report:
  assumes "proto_rep a pp" and "\<forall>xs \<in> ran a. length xs \<le> 2 ^ 46"
  shows "\<exists>r. proto_Out pp = Ret r \<and> map_of r = report_of a"
proof -
  have "\<exists>x. p99_Out h = Ret x" if "(k, h) \<in> set pp" for k h
    using proto_rep_stored [OF assms(1) that] p99_Out_Ret by blast
  moreover have "distinct (map fst pp)" using assms(1) by (simp add: proto_rep_def)
  ultimately obtain r where r: "proto_Out pp = Ret r"
    "\<And>k. map_of r k = (case map_of pp k of None \<Rightarrow> None
      | Some h \<Rightarrow> (case p99_Out h of Ret x \<Rightarrow> if 0 < x then Some x else None | Panic _ \<Rightarrow> None))"
    using proto_Out_lookup [of pp] by blast
  have "map_of r k = report_of a k" for k
    using proto_repD [OF assms(1), of k] assms(2) ranI [of a k]
    by (cases "a k"; cases "map_of pp k")
      (auto simp: r(2) report_of_def p99_Out_percentile percentile_pos)
  with r(1) show ?thesis by blast
qed

lemma proto_aop_len:
  assumes "\<And>k xs. a k = Some xs \<Longrightarrow> length xs \<le> n"
  shows "fold proto_aop ops a k = Some xs \<Longrightarrow> length xs \<le> n + length ops"
  using assms
proof (induction ops arbitrary: a n)
  case Nil
  then show ?case by simp
next
  case (Cons x ops)
  have "length ys \<le> Suc n" if "proto_aop x a k' = Some ys" for k' ys
    using that Cons.prems(2) [of k']
    by (cases x) (auto split: if_splits option.splits intro: le_SucI)
  from Cons.IH [OF _ this] Cons.prems(1) show ?case by simp
qed

section \<open>Collection\<close>

lemma store_sample_frame [simp]:
  "CountConnection (store_sample i v m) = CountConnection m"
  "CountPublicTCPRequest (store_sample i v m) = CountPublicTCPRequest m"
  "CountPublicHTTPRequest (store_sample i v m) = CountPublicHTTPRequest m"
  "CountPrivateHTTPRequest (store_sample i v m) = CountPrivateHTTPRequest m"
  "P99PublicHTTPRequestLatency (store_sample i v m) = P99PublicHTTPRequestLatency m"
  "P99PrivateHTTPRequestLatency (store_sample i v m) = P99PrivateHTTPRequestLatency m"
  by (simp_all add: store_sample_def split: sample.split)

lemma store_samples_frame [simp]:
  "CountConnection (store_samples i vs m) = CountConnection m"
  "CountPublicTCPRequest (store_samples i vs m) = CountPublicTCPRequest m"
  "CountPublicHTTPRequest (store_samples i vs m) = CountPublicHTTPRequest m"
  "CountPrivateHTTPRequest (store_samples i vs m) = CountPrivateHTTPRequest m"
  "P99PublicHTTPRequestLatency (store_samples i vs m) = P99PublicHTTPRequestLatency m"
  "P99PrivateHTTPRequestLatency (store_samples i vs m) = P99PrivateHTTPRequestLatency m"
  by (induction vs arbitrary: i m) simp_all

lemma go_div_pos: "0 < b \<Longrightarrow> 0 \<le> a \<Longrightarrow> go_div a b = Ret (a div b)"
  by (cases "a = 0") (auto simp: go_div_def)

lemma Reset_Out_Nil:
  assumes "proto_rep a pp"
  shows "\<exists>q. proto_Reset pp = Ret q \<and> proto_Out q = Ret [] \<and> (\<exists>a. proto_rep a q)"
proof -
  obtain q where q: "proto_Reset pp = Ret q" "proto_rep (proto_aop PReset a) q"
    using proto_rep_Reset [OF assms] by blast
  have len: "\<forall>xs \<in> ran (proto_aop PReset a). length xs \<le> 2 ^ 46" by (auto simp: ran_def)
  obtain r where "proto_Out q = Ret r" "map_of r = report_of (proto_aop PReset a)"
    using proto_Out_report [OF q(2) len] by blast
  moreover have "report_of (proto_aop PReset a) = Map.empty"
    by (auto simp: report_of_def counted_def fun_eq_iff split: option.splits)
  ultimately show ?thesis using q by auto
qed

section \<open>Properties\<close>

text \<open>C16: a histogram fed with a list of samples returns, without a panic, the smallest bucket
  that at least 99 percent of the samples do not exceed; the floating-point comparison of the
  code makes no difference.\<close>

theorem p99_correct:
  assumes "xs \<noteq> []" and "\<forall>x \<in> set xs. x \<le> 9999999999" and "length xs \<le> 2 ^ 46"
  shows "\<exists>h b. go_fold p99_In xs (NewP99 Buckets) = Ret h \<and> p99_Out h = Ret b \<and> b \<in> set Buckets \<and>
    99 * int (length xs) \<le> 100 * le_count xs b \<and>
    (\<forall>b' \<in> set Buckets. b' < b \<longrightarrow> 100 * le_count xs b' < 99 * int (length xs))"
proof -
  have "go_fold hist_cop (map HIn xs) h = go_fold p99_In xs h" for h
    by (induction xs arbitrary: h) (auto simp: fun_eq_iff intro: arg_cong [where f = "go_bind _"])
  moreover have "fold hist_aop (map HIn xs) ys = ys @ xs" for ys
    by (induction xs arbitrary: ys) simp_all
  ultimately obtain h where h: "go_fold p99_In xs (NewP99 Buckets) = Ret h" "hist_rep Buckets xs h"
    using hist.run_refines [OF hist_rep_New, where xs = "map HIn xs" and bs = Buckets] by auto
  have "counted xs = xs" using assms(2) by (simp add: counted_def)
  with percentile_least [of xs] assms(1) p99_Out_percentile [OF h(2) assms(3)] h(1)
  show ?thesis by auto
qed

theorem p99_correct_witness:
  "\<exists>h. go_fold p99_In [3, 7, 8, 700] (NewP99 Buckets) = Ret h \<and> p99_Out h = Ret 1000"
proof -
  let ?xs = "[3, 7, 8, 700] :: int list"
  have "?xs \<noteq> []" "\<forall>x \<in> set ?xs. x \<le> 9999999999" "length ?xs \<le> 2 ^ 46" by simp_all
  from p99_correct [OF this] obtain h b where "go_fold p99_In ?xs (NewP99 Buckets) = Ret h"
    "p99_Out h = Ret b" "b \<in> set Buckets" "99 * int (length ?xs) \<le> 100 * le_count ?xs b"
    "\<forall>b' \<in> set Buckets. b' < b \<longrightarrow> 100 * le_count ?xs b' < 99 * int (length ?xs)"
    by blast
  moreover from this have "b = 1000" by (auto simp: Buckets_def le_count_def split: if_splits)
  ultimately show ?thesis by blast
qed



lemma collect_facts:
  assumes "metrics_ok m" and "0 < interval"
  shows "\<exists>m' d. collect read interval m = Ret m' \<and> metrics_ok m' \<and> Data m' = Some d \<and>
    d_connection d = CountConnection m \<and>
    d_public_tcp_qps d = CountPublicTCPRequest m div interval \<and>
    d_private_http_qps d = CountPrivateHTTPRequest m div interval \<and>
    proto_Out (P99PublicHTTPRequestLatency m) = Ret (d_public_p99 d) \<and>
    proto_Out (P99PrivateHTTPRequestLatency m) = Ret (d_private_p99 d) \<and>
    CountPublicTCPRequest m' = 0 \<and> CountPrivateHTTPRequest m' = 0 \<and> CountGoroutine m' = 0 \<and>
    proto_Out (P99PublicHTTPRequestLatency m') = Ret [] \<and>
    proto_Out (P99PrivateHTTPRequestLatency m') = Ret [] \<and>
    CountConnection m' = CountConnection m \<and> CountPublicHTTPRequest m' = CountPublicHTTPRequest m"
proof -
  obtain a b where a: "proto_rep a (P99PublicHTTPRequestLatency m)"
    and b: "proto_rep b (P99PrivateHTTPRequestLatency m)"
    using assms(1) by (auto simp: metrics_ok_def)
  obtain r where r: "proto_Out (P99PublicHTTPRequestLatency m) = Ret r"
    using proto_Out_Ret proto_rep_stored [OF a] by blast
  obtain s where s: "proto_Out (P99PrivateHTTPRequestLatency m) = Ret s"
    using proto_Out_Ret proto_rep_stored [OF b] by blast
  obtain p where p: "proto_Reset (P99PublicHTTPRequestLatency m) = Ret p" "proto_Out p = Ret []"
    "\<exists>a. proto_rep a p"
    using Reset_Out_Nil [OF a] by blast
  obtain q where q: "proto_Reset (P99PrivateHTTPRequestLatency m) = Ret q" "proto_Out q = Ret []"
    "\<exists>a. proto_rep a q"
    using Reset_Out_Nil [OF b] by blast
  have "0 \<le> CountPublicTCPRequest m" "0 \<le> CountPrivateHTTPRequest m"
    using assms(1) by (simp_all add: metrics_ok_def)
  then show ?thesis
    using r s p q assms(2)
    by (simp add: collect_def getRuntume_def go_div_pos metrics_reset_def metrics_ok_def Let_def)
qed



end
