(* ===== verification/System_Steps.thy ===== *)
theory System_Steps
  imports System Metric_Props
begin

text \<open>
  The transition relation of the whole gateway process, its runs with the events they make
  visible, and the facts about what each kind of step leaves alone.
\<close>

section \<open>Steps and runs\<close>

datatype event =
    EvAdd nat | EvRun nat | EvLocal nat | EvFin nat fpc | EvAct act | EvHttp inbound http_resp
  | EvClose | EvTime | EvCollect

inductive sys_step :: "(goerr \<Rightarrow> string) \<Rightarrow> env \<Rightarrow> sys \<Rightarrow> event \<Rightarrow> sys \<Rightarrow> bool" for err_text e where
  add: "y_accept s = None \<Longrightarrow>
     sys_step err_text e s (EvAdd (length (y_slots s))) (accept_add now rnd c address s)"
| start: "y_accept s = Some i \<Longrightarrow> sys_step err_text e s (EvRun i) (accept_run i s)"
| local: "i < length (y_slots s) \<Longrightarrow> sl_fin (y_slots s ! i) \<noteq> FNone \<Longrightarrow>
     loc_step err_text e (focus i s) l \<Longrightarrow> sys_step err_text e s (EvLocal i) (put_back i l s)"
| fin: "i < length (y_slots s) \<Longrightarrow> pc = sl_fin (y_slots s ! i) \<Longrightarrow> pc \<noteq> FNone \<Longrightarrow> pc \<noteq> FDone \<Longrightarrow>
     (pc = FWait \<Longrightarrow> a_done (sl_agent (y_slots s ! i))) \<Longrightarrow>
     sys_step err_text e s (EvFin i pc) (fin_step e pc i s)"
| http: "http_start path r s = (resp, t) \<Longrightarrow> sys_step err_text e s (EvHttp r resp) t"
| act: "y_threads s = ts @ (a # as) # ts' \<Longrightarrow> act_step e a s = (pre, new, t) \<Longrightarrow>
     sys_step err_text e s (EvAct a) (t\<lparr>y_threads := ts @ (pre @ as) # ts' @ new\<rparr>)"
| close: "sys_step err_text e s EvClose (sys_Close s)"
| time: "y_clock s \<le> t \<Longrightarrow> sys_step err_text e s EvTime (s\<lparr>y_clock := t\<rparr>)"
| collect: "collect read 10 (y_met s) = Ret m \<Longrightarrow>
     sys_step err_text e s EvCollect (s\<lparr>y_met := m\<rparr>)"

text \<open>A run records its events; nothing happens after a crash of the process.\<close>

inductive sys_run :: "(goerr \<Rightarrow> string) \<Rightarrow> env \<Rightarrow> event list \<Rightarrow> sys \<Rightarrow> bool" for err_text e where
  init: "sys_run err_text e [] sys_init"
| step: "sys_run err_text e ls s \<Longrightarrow> \<not> y_crashed s \<Longrightarrow> sys_step err_text e s l t \<Longrightarrow>
     sys_run err_text e (ls @ [l]) t"

inductive_cases sys_run_snoc: "sys_run err_text e (ls @ [l]) t"

section \<open>What an agent's goroutines leave alone\<close>

text \<open>
  The identity of the agent, whether it is disabled, and the number of connections: no
  goroutine of an agent other than its finalizer touches them.
\<close>

definition gkeep :: "gst \<Rightarrow> string \<times> bool \<times> int" where
  "gkeep g = (a_cid (g_agent g), a_disable (g_agent g), CountConnection (g_met g))"

lemma gkeep_on_agent [simp]:
  "a_cid (f (g_agent g)) = a_cid (g_agent g) \<Longrightarrow> a_disable (f (g_agent g)) = a_disable (g_agent g) \<Longrightarrow>
     gkeep (on_agent f g) = gkeep g"
  by (simp add: gkeep_def)

lemma gkeep_on_met [simp]:
  "CountConnection (f (g_met g)) = CountConnection (g_met g) \<Longrightarrow> gkeep (on_met f g) = gkeep g"
  by (simp add: gkeep_def)

lemma gkeep_simps [simp]:
  "gkeep (AlertAuto x g) = gkeep g"
  "gkeep (g\<lparr>g_jobs := js\<rparr>) = gkeep g"
  "gkeep (g\<lparr>g_reqs := rs, g_clock := n\<rparr>) = gkeep g"
  "gkeep (AlertLowFrequency k x g) = gkeep g"
  by (simp_all add: gkeep_def AlertLowFrequency_def)

lemma agent_keep [simp]:
  "a_cid (agent_Set k v a) = a_cid a" "a_disable (agent_Set k v a) = a_disable a"
  "a_cid (agent_Close a) = a_cid a" "a_disable (agent_Close a) = a_disable a"
  "a_cid (agent_recv a) = a_cid a" "a_disable (agent_recv a) = a_disable a"
  "a_cid (set_conn c a) = a_cid a" "a_disable (set_conn c a) = a_disable a"
  "a_done (set_conn c a) = a_done a" "a_done (agent_Set k v a) = a_done a"
  "a_done (agent_recv a) = a_done a" "a_done (agent_Close a)"
  "a_cid (agent_Disable a) = a_cid a" "a_done (agent_Disable a) = a_done a" "a_disable (agent_Disable a)"
  by (simp_all add: agent_Set_def agent_Close_def agent_recv_def set_conn_def agent_Disable_def)

lemma loop_keep:
  "loop_pop a = (pc, a') \<Longrightarrow> a_cid a' = a_cid a \<and> a_disable a' = a_disable a \<and> a_done a' = a_done a \<and>
     a_storage a' = a_storage a"
  "loop_flush b a = (pc, a') \<Longrightarrow> a_cid a' = a_cid a \<and> a_disable a' = a_disable a \<and> a_done a' = a_done a \<and>
     a_storage a' = a_storage a"
  by (auto simp: loop_pop_def loop_flush_def split: prod.splits sum.splits option.splits)

lemma gkeep_http_send: "http_send e req g = (out, g') \<Longrightarrow> gkeep g' = gkeep g"
  by (auto simp: http_send_def split: prod.splits http_outcome.splits)

lemma gkeep_http_reply: "http_reply e out g = (r, g') \<Longrightarrow> gkeep g' = gkeep g"
  by (auto simp: http_reply_def Let_def split: http_outcome.splits if_splits)

lemma gkeep_log_done: "log_done m st err g = (r, g') \<Longrightarrow> gkeep g' = gkeep g"
  by (auto simp: log_done_def Let_def split: go.splits if_splits)

lemma gkeep_rate_end [simp]: "gkeep (rate_end g) = gkeep g"
  by (simp add: rate_end_def split: option.splits any.splits)

lemma gkeep_job_alert [simp]: "gkeep (job_alert m r g) = gkeep g"
  by (simp add: job_alert_def split: go.splits option.splits)

lemma gkeep_Write:
  "agent_Write grow late i b (g_agent g) = (r, a) \<Longrightarrow> gkeep (g\<lparr>g_agent := a\<rparr>) = gkeep g"
  using agent_Write_frame [of grow late i b "g_agent g"] by (simp add: gkeep_def)

lemma gkeep_job_step:
  assumes "job_step e m pc g = (pc', g')"
  shows "gkeep g' = gkeep g"
  using assms
proof (cases pc)
  case JNew
  then show ?thesis
    using assms gkeep_Write [where g = "on_met _ g"]
    by (auto simp: Let_def split: if_splits prod.splits)
qed (auto dest: gkeep_http_send gkeep_http_reply gkeep_log_done
    split: option.splits any.splits prod.splits go.splits)

lemma gkeep_ForwadHttp:
  assumes "ForwadHttp e m g = (r, g')"
  shows "gkeep g' = gkeep g"
proof -
  obtain r0 a where ns: "next_seq (g_agent g) = (r0, a)" by fastforce
  have a: "gkeep (g\<lparr>g_agent := a\<rparr>) = gkeep g"
    using ns by (cases rule: next_seq_cases) (simp_all add: gkeep_def)
  with assms ns show ?thesis
    by (auto simp: ForwadHttp_def Let_def dest!: gkeep_http_send gkeep_http_reply
        split: go.splits prod.splits)
qed

lemma gkeep_PluginsMain:
  "PluginsMain e m g = (r, g') \<Longrightarrow> gkeep g' = gkeep g"
  by (auto simp: PluginsMain_unfold RateLimitMiddle_def ConcurrentMiddle_def Let_def
      split: option.splits any.splits if_splits)

lemma gkeep_exits [simp]:
  "gkeep (read_exit err_text r g) = gkeep g" "gkeep (write_exit err_text x g) = gkeep g"
  by (auto simp: read_exit_def write_exit_def Let_def split: loop_exit.split option.split)

lemma loc_step_gkeep: "loc_step err_text e l l' \<Longrightarrow> gkeep (l_g l') = gkeep (l_g l)"
  by (induction rule: loc_step.induct)
    (auto dest: gkeep_PluginsMain gkeep_job_step loop_keep)

section \<open>The part of the state that registration is about\<close>

definition slot_ids :: "sys \<Rightarrow> (string \<times> fpc) list" where
  "slot_ids s = map (\<lambda>sl. (a_cid (sl_agent sl), sl_fin sl)) (y_slots s)"

definition sys_keep :: "sys \<Rightarrow> sys \<Rightarrow> bool" where
  "sys_keep s t \<longleftrightarrow> slot_ids t = slot_ids s \<and> y_accept t = y_accept s \<and>
     CountConnection (y_met t) = CountConnection (y_met s)"

lemma sys_keep_refl [simp]: "sys_keep s s"
  by (simp add: sys_keep_def)

lemma sys_keep_trans: "sys_keep s t \<Longrightarrow> sys_keep t u \<Longrightarrow> sys_keep s u"
  by (simp add: sys_keep_def)

lemma length_slot_ids [simp]: "length (slot_ids s) = length (y_slots s)"
  by (simp add: slot_ids_def)

lemma nth_slot_ids [simp]:
  "i < length (y_slots s) \<Longrightarrow> slot_ids s ! i = (a_cid (sl_agent (y_slots s ! i)), sl_fin (y_slots s ! i))"
  by (simp add: slot_ids_def)

lemma slot_ids_update:
  "slot_ids (s\<lparr>y_slots := (y_slots s)[i := sl]\<rparr>) =
     (slot_ids s)[i := (a_cid (sl_agent sl), sl_fin sl)]"
  by (simp add: slot_ids_def map_update)

lemma list_update_same: "(i < length xs \<Longrightarrow> x = xs ! i) \<Longrightarrow> xs[i := x] = xs"
  by (cases "i < length xs") (auto simp: list_update_beyond)

lemma on_slot_keep:
  assumes "\<And>sl. a_cid (sl_agent (f sl)) = a_cid (sl_agent sl)" and "\<And>sl. sl_fin (f sl) = sl_fin sl"
  shows "sys_keep s (on_slot i f s)" and "y_gw (on_slot i f s) = y_gw s"
proof -
  have "slot_ids (on_slot i f s) = slot_ids s"
    unfolding on_slot_def slot_ids_update using assms by (intro list_update_same) simp
  then show "sys_keep s (on_slot i f s)" by (simp add: sys_keep_def on_slot_def)
  show "y_gw (on_slot i f s) = y_gw s" by (simp add: on_slot_def)
qed

lemma on_slot_agent_keep:
  "(\<And>a. a_cid (f a) = a_cid a) \<Longrightarrow> sys_keep s (on_slot_agent i f s) \<and> y_gw (on_slot_agent i f s) = y_gw s"
  unfolding on_slot_agent_def by (intro conjI on_slot_keep) simp_all

lemma put_back_keep:
  assumes "gkeep (l_g l) = gkeep (l_g (focus i s))"
  shows "sys_keep s (put_back i l s)" and "y_gw (put_back i l s) = y_gw s"
proof -
  have "slot_ids (put_back i l s) = slot_ids s"
    using assms unfolding put_back_def
    by (auto simp: slot_ids_def map_update gkeep_def focus_def Let_def intro!: list_update_same)
  then show "sys_keep s (put_back i l s)"
    using assms by (simp add: sys_keep_def put_back_def gkeep_def focus_def Let_def)
  show "y_gw (put_back i l s) = y_gw s" by (simp add: put_back_def)
qed

lemma collect_keep: "collect read n m = Ret m' \<Longrightarrow> CountConnection m' = CountConnection m"
  by (cases "go_div (CountPublicTCPRequest (getRuntume read m)) n";
      cases "go_div (CountPrivateHTTPRequest (getRuntume read m)) n";
      cases "proto_Out (P99PublicHTTPRequestLatency (getRuntume read m))";
      cases "proto_Out (P99PrivateHTTPRequestLatency (getRuntume read m))";
      cases "proto_Reset (P99PublicHTTPRequestLatency (getRuntume read m))";
      cases "proto_Reset (P99PrivateHTTPRequestLatency (getRuntume read m))")
    (auto simp: collect_def metrics_reset_def getRuntume_def Let_def)

lemma http_leave_keep:
  "http_leave ip path start now m = Ret (m', al) \<Longrightarrow> CountConnection m' = CountConnection m"
  by (cases "proto_In path (quot (now - start) 1000000) (P99PrivateHTTPRequestLatency m)")
    (auto simp: http_leave_def Let_def)

lemma slot_ids_more [simp]:
  "slot_ids (s\<lparr>y_met := m\<rparr>) = slot_ids s" "slot_ids (s\<lparr>y_met := m, y_alerts := al\<rparr>) = slot_ids s"
  "slot_ids (s\<lparr>y_alerts := al\<rparr>) = slot_ids s" "slot_ids (s\<lparr>y_threads := th\<rparr>) = slot_ids s"
  "slot_ids (s\<lparr>y_met := m, y_accept := acc\<rparr>) = slot_ids s"
  "slot_ids (s\<lparr>y_clock := n\<rparr>) = slot_ids s" "slot_ids (s\<lparr>y_gw := gw\<rparr>) = slot_ids s"
  "slot_ids (s\<lparr>y_met := m, y_alerts := al, y_threads := th\<rparr>) = slot_ids s"
  by (simp_all add: slot_ids_def)

lemma act_step_keep:
  assumes "act_step e a s = (pre, new, t)"
  shows "sys_keep s t \<and> y_gw t = y_gw s"
proof (cases a)
  case (ALog path start)
  then show ?thesis
    using assms http_leave_keep
    by (auto simp: sys_keep_def split: go.splits)
qed (use assms on_slot_agent_keep in \<open>auto split: option.splits if_splits\<close>)

lemma http_start_keep:
  "http_start path r s = (resp, t) \<Longrightarrow> sys_keep s t \<and> y_gw t = y_gw s"
  by (auto simp: http_start_def sys_keep_def http_enter_def split: prod.splits)

text \<open>Every step but registration, finalization and \<open>Close\<close> keeps all of this.\<close>

lemma sys_step_keep:
  assumes "sys_step err_text e s l t"
    and "\<And>i. l \<noteq> EvAdd i" and "\<And>i. l \<noteq> EvRun i" and "\<And>i pc. l \<noteq> EvFin i pc" and "l \<noteq> EvClose"
  shows "sys_keep s t \<and> y_gw t = y_gw s"
  using assms
proof (induction rule: sys_step.induct)
  case (local i s l)
  then show ?case using put_back_keep loc_step_gkeep by blast
next
  case (http path r s resp t)
  then show ?case using http_start_keep by blast
next
  case (act s ts a as ts' pre new t)
  then show ?case using act_step_keep [OF act(2)] by (simp add: sys_keep_def)
next
  case (collect read s m)
  then show ?case using collect_keep by (simp add: sys_keep_def)
qed (auto simp: sys_keep_def)

end
