(* ===== verification/System_Inv.thy ===== *)
theory System_Inv
  imports System_Steps
begin

text \<open>
  The invariants of the whole process: the connection counter counts the agents whose
  finalizer has not started, and the table holds exactly the agents that have been
  registered and not removed, each under its own identifier.
\<close>

section \<open>Registration\<close>

definition live :: "(string \<times> fpc) list \<Rightarrow> nat option \<Rightarrow> nat \<Rightarrow> bool" where
  "live ids acc i \<longleftrightarrow> i < length ids \<and> (snd (ids ! i) = FWait \<or> snd (ids ! i) = FRemove \<or> acc = Some i)"

definition waiting :: "(string \<times> fpc) list \<Rightarrow> int" where
  "waiting ids = int (length (filter (\<lambda>x. snd x = FWait) ids))"

definition reg_ok :: "(string \<times> fpc) list \<Rightarrow> nat option \<Rightarrow> nat gateway \<Rightarrow> bool" where
  "reg_ok ids acc gw \<longleftrightarrow>
     distinct (map fst (entries gw)) \<and>
     (\<forall>k i. map_of (entries gw) k = Some i \<longrightarrow> live ids acc i \<and> fst (ids ! i) = k) \<and>
     (gw_agents gw \<noteq> None \<longrightarrow>
        (\<forall>i. live ids acc i \<longrightarrow> map_of (entries gw) (fst (ids ! i)) = Some i)) \<and>
     (\<forall>i < length ids. good_key (fst (ids ! i))) \<and>
     (\<forall>i. acc = Some i \<longrightarrow> i < length ids \<and> snd (ids ! i) = FNone)"

definition sys_inv :: "sys \<Rightarrow> bool" where
  "sys_inv s \<longleftrightarrow> reg_ok (slot_ids s) (y_accept s) (y_gw s) \<and>
     CountConnection (y_met s) = waiting (slot_ids s)"

lemma sys_inv_init: "sys_inv sys_init"
  by (simp add: sys_inv_def reg_ok_def sys_init_def slot_ids_def waiting_def metrics_init_def
      gateway_New_def entries_def live_def)

lemma sys_inv_keep: "sys_inv s \<Longrightarrow> sys_keep s t \<Longrightarrow> y_gw t = y_gw s \<Longrightarrow> sys_inv t"
  by (simp add: sys_inv_def sys_keep_def)

text \<open>How the counted set changes.\<close>

lemma waiting_update:
  assumes "i < length ids"
  shows "waiting (ids[i := x]) = waiting ids - (if snd (ids ! i) = FWait then 1 else 0)
    + (if snd x = FWait then 1 else 0)"
proof -
  have "ids = take i ids @ ids ! i # drop (Suc i) ids" using assms by (rule id_take_nth_drop)
  then have "waiting ids = waiting (take i ids @ ids ! i # drop (Suc i) ids)" by simp
  moreover have "ids[i := x] = take i ids @ x # drop (Suc i) ids"
    using assms by (rule upd_conv_take_nth_drop)
  ultimately show ?thesis by (simp add: waiting_def)
qed

lemma waiting_snoc [simp]: "waiting (ids @ [x]) = waiting ids + (if snd x = FWait then 1 else 0)"
  by (simp add: waiting_def)

lemma reg_okD:
  assumes "reg_ok ids acc gw"
  shows "distinct (map fst (entries gw))"
    and "map_of (entries gw) k = Some i \<Longrightarrow> live ids acc i \<and> fst (ids ! i) = k"
    and "gw_agents gw \<noteq> None \<Longrightarrow> live ids acc i \<Longrightarrow> map_of (entries gw) (fst (ids ! i)) = Some i"
    and "i < length ids \<Longrightarrow> good_key (fst (ids ! i))"
    and "acc = Some i \<Longrightarrow> i < length ids \<and> snd (ids ! i) = FNone"
  using assms by (auto simp: reg_ok_def)

text \<open>Changing a finalizer's position without changing who is live.\<close>

lemma reg_ok_move:
  assumes "reg_ok ids acc gw" and "i < length ids"
    and "\<And>j. live (ids[i := (fst (ids ! i), pc)]) acc' j = live ids acc j"
    and "\<And>j. acc' = Some j \<Longrightarrow> j < length ids \<and> snd (ids[i := (fst (ids ! i), pc)] ! j) = FNone"
  shows "reg_ok (ids[i := (fst (ids ! i), pc)]) acc' gw"
proof -
  have fst_same: "fst (ids[i := (fst (ids ! i), pc)] ! j) = fst (ids ! j)" if "j < length ids" for j
    using that by (cases "i = j") simp_all
  have "live ids acc j \<Longrightarrow> j < length ids" for j by (simp add: live_def)
  then show ?thesis
    using assms fst_same unfolding reg_ok_def assms(3) by simp
qed

subsection \<open>Accepting\<close>

lemma live_snoc:
  "live (ids @ [(u, FNone)]) None j = live ids None j"
  "live (ids @ [(u, FNone)]) (Some (length ids)) j \<longleftrightarrow> live ids None j \<or> j = length ids"
  by (auto simp: live_def nth_append less_Suc_eq)

lemma live_less: "live ids acc j \<Longrightarrow> j < length ids"
  by (simp add: live_def)

lemma reg_ok_snoc:
  assumes "reg_ok ids None gw" and "good_key u"
  shows "reg_ok (ids @ [(u, FNone)]) None gw"
  using assms live_less [of ids None] unfolding reg_ok_def live_snoc
  by (auto simp: nth_append less_Suc_eq)

lemma reg_ok_enter:
  assumes inv: "reg_ok ids None gw" and "good_key u" and m: "gw_agents gw = Some m"
    and none: "map_of m u = None"
  shows "reg_ok (ids @ [(u, FNone)]) (Some (length ids))
    (gw\<lparr>gw_agents := Some (AList.update u (length ids) m)\<rparr>)"
proof -
  have em: "entries gw = m" and eu: "entries (gw\<lparr>gw_agents := Some (AList.update u (length ids) m)\<rparr>) =
      AList.update u (length ids) m"
    using m by (simp_all add: entries_def)
  have other: "live ids None j \<Longrightarrow> fst (ids ! j) \<noteq> u" for j
    using reg_okD(3) [OF inv, of j] none m em by auto
  show ?thesis
    using inv assms(2) m other live_less [of ids None] unfolding reg_ok_def live_snoc eu em
    by (auto simp: update_conv' distinct_update nth_append less_Suc_eq split: if_splits)
qed

lemma reg_ok_cong:
  "gw_agents gw' = gw_agents gw \<Longrightarrow> reg_ok ids acc gw' = reg_ok ids acc gw"
  by (simp add: reg_ok_def entries_def)

lemma accept_add_inv:
  assumes "sys_inv s" and "y_accept s = None"
  shows "sys_inv (accept_add now rnd c address s)"
proof -
  define u where "u = fst (GenerateAgentUID now rnd (y_gw s))"
  define gw where "gw = snd (GenerateAgentUID now rnd (y_gw s))"
  define n where "n = length (y_slots s)"
  let ?ids = "slot_ids s" and ?s = "accept_add now rnd c address s"
  have n: "length ?ids = n" by (simp add: n_def)
  have inv: "reg_ok ?ids None gw" and count: "CountConnection (y_met s) = waiting ?ids"
    using assms reg_ok_cong [of gw "y_gw s"] by (simp_all add: sys_inv_def gw_def)
  have good: "good_key u" by (simp add: u_def GenerateAgentUID_good)
  then have u: "trim_space u = u" "u \<noteq> ''''" by (simp_all add: good_key_def)
  have gen: "GenerateAgentUID now rnd (y_gw s) = (u, gw)" by (simp add: u_def gw_def)
  have cid: "a_cid (agent_New c address u) = u" by (simp add: agent_New_def)
  note base = reg_ok_snoc [OF inv good]
  show ?thesis
  proof (cases "map_of (entries gw) u")
    case (Some v)
    then have "AddAgent u n gw = (Ret (Some ErrAgentUIDDuplicated), gw)"
      using u by (simp add: AddAgent_def)
    then have "slot_ids ?s = ?ids @ [(u, FNone)]" "y_accept ?s = None" "y_gw ?s = gw"
      "CountConnection (y_met ?s) = CountConnection (y_met s)"
      using assms(2) gen cid
      by (simp_all add: accept_add_def on_slot_agent_def on_slot_def slot_ids_def n_def Let_def)
    then show ?thesis using base count by (simp add: sys_inv_def)
  next
    case None
    show ?thesis
    proof (cases "gw_agents gw")
      case closed: None
      then have "AddAgent u n gw = (Panic ''assignment to entry in nil map'', gw)"
        using u None by (simp add: AddAgent_def)
      then have "slot_ids ?s = ?ids @ [(u, FNone)]" "y_accept ?s = None" "y_gw ?s = gw"
        "CountConnection (y_met ?s) = CountConnection (y_met s)"
        using assms(2) gen cid by (simp_all add: accept_add_def slot_ids_def n_def Let_def)
      then show ?thesis using base count by (simp add: sys_inv_def)
    next
      case (Some m)
      let ?gw = "gw\<lparr>gw_agents := Some (AList.update u n m)\<rparr>"
      have "AddAgent u n gw = (Ret None, ?gw)"
        using u None Some by (simp add: AddAgent_def)
      then have "slot_ids ?s = ?ids @ [(u, FNone)]" "y_accept ?s = Some n" "y_gw ?s = ?gw"
        "CountConnection (y_met ?s) = CountConnection (y_met s)"
        using gen cid by (simp_all add: accept_add_def slot_ids_def n_def Let_def)
      moreover have "map_of m u = None" using None Some by (simp add: entries_def)
      ultimately show ?thesis
        using reg_ok_enter [OF inv good Some, unfolded n] count by (simp add: sys_inv_def)
    qed
  qed
qed

subsection \<open>Starting and finalizing\<close>

lemma set_fin_ids:
  assumes "i < length (y_slots s)"
  shows "slot_ids (set_fin i pc s) = (slot_ids s)[i := (fst (slot_ids s ! i), pc)]"
  using assms by (simp add: set_fin_def on_slot_def slot_ids_update)

lemma set_fin_more [simp]:
  "y_accept (set_fin i pc s) = y_accept s" "y_gw (set_fin i pc s) = y_gw s"
  "y_met (set_fin i pc s) = y_met s" "length (y_slots (set_fin i pc s)) = length (y_slots s)"
  by (simp_all add: set_fin_def on_slot_def)

lemma accept_run_inv:
  assumes "sys_inv s" and "y_accept s = Some i"
  shows "sys_inv (accept_run i s)"
proof -
  let ?ids = "slot_ids s"
  note inv = assms(1) [unfolded sys_inv_def]
  have i: "i < length ?ids" "snd (?ids ! i) = FNone"
    using reg_okD(5) [OF conjunct1 [OF inv] assms(2)] by auto
  let ?ids' = "?ids[i := (fst (?ids ! i), FWait)]"
  have "live ?ids' None j = live ?ids (Some i) j" for j
    using i by (cases "i = j") (auto simp: live_def)
  then have "reg_ok ?ids' None (y_gw s)"
    using inv assms(2) i(1) by (intro reg_ok_move [of _ "Some i"]) auto
  moreover have "waiting ?ids' = waiting ?ids + 1"
    using i by (simp add: waiting_update)
  ultimately show ?thesis
    using inv i(1) by (simp add: sys_inv_def accept_run_def set_fin_ids count_conn_def)
qed

lemma fin_count_inv:
  assumes "sys_inv s" and "i < length (y_slots s)" and "sl_fin (y_slots s ! i) = FWait"
  shows "sys_inv (fin_count i s)"
proof -
  let ?ids = "slot_ids s"
  let ?ids' = "?ids[i := (fst (?ids ! i), FRemove)]"
  note inv = assms(1) [unfolded sys_inv_def]
  have i: "i < length ?ids" "snd (?ids ! i) = FWait" using assms(2,3) by simp_all
  have acc: "y_accept s \<noteq> Some i" using reg_okD(5) [OF conjunct1 [OF inv], of i] i by auto
  have "live ?ids' (y_accept s) j = live ?ids (y_accept s) j" for j
    using i by (cases "i = j") (auto simp: live_def)
  moreover have "j < length ?ids \<and> snd (?ids' ! j) = FNone" if "y_accept s = Some j" for j
    using that acc reg_okD(5) [OF conjunct1 [OF inv] that] by (cases "i = j") auto
  ultimately have "reg_ok ?ids' (y_accept s) (y_gw s)"
    using inv i(1) by (intro reg_ok_move) auto
  moreover have "waiting ?ids' = waiting ?ids - 1"
    using i by (simp add: waiting_update)
  ultimately show ?thesis
    using inv assms(2) by (simp add: sys_inv_def fin_count_def set_fin_ids count_conn_def)
qed

lemma fin_remove_inv:
  assumes "sys_inv s" and "i < length (y_slots s)" and "sl_fin (y_slots s ! i) = FRemove"
  shows "sys_inv (fin_remove i s)"
proof -
  let ?ids = "slot_ids s"
  let ?ids' = "?ids[i := (fst (?ids ! i), FClose)]"
  let ?u = "fst (?ids ! i)"
  note inv = assms(1) [unfolded sys_inv_def, THEN conjunct1]
  have i: "i < length ?ids" "snd (?ids ! i) = FRemove" using assms(2,3) by simp_all
  have u: "?u = a_cid (sl_agent (y_slots s ! i))" using assms(2) by simp
  have acc: "y_accept s \<noteq> Some i" using reg_okD(5) [OF inv, of i] i by auto
  have good: "trim_space ?u \<noteq> ''''" using reg_okD(4) [OF inv i(1)] by (simp add: good_key_def)
  define gw where "gw = snd (RemoveAgent ?u (y_gw s))"
  have ent: "map_of (entries gw) k = (if k = ?u then None else map_of (entries (y_gw s)) k)" for k
    using good by (auto simp: gw_def RemoveAgent_def entries_def map_of_delete split: option.splits)
  have dist: "distinct (map fst (entries gw))"
    using good reg_okD(1) [OF inv]
    by (auto simp: gw_def RemoveAgent_def entries_def distinct_delete split: option.splits)
  have nil: "gw_agents gw = None \<longleftrightarrow> gw_agents (y_gw s) = None"
    using good by (auto simp: gw_def RemoveAgent_def split: option.splits)
  have live1: "live ?ids' (y_accept s) j \<longleftrightarrow> live ?ids (y_accept s) j \<and> j \<noteq> i" for j
    using i acc by (cases "i = j") (auto simp: live_def)
  have fst1: "fst (?ids' ! j) = fst (?ids ! j)" for j
    using i(1) by (cases "i = j") simp_all
  have key: "map_of (entries (y_gw s)) ?u = Some i" if "gw_agents (y_gw s) \<noteq> None"
    using reg_okD(3) [OF inv that, of i] i by (simp add: live_def)
  have "reg_ok ?ids' (y_accept s) gw"
    unfolding reg_ok_def live1 fst1
  proof (intro conjI allI impI)
    fix k j assume k: "map_of (entries gw) k = Some j"
    then have old: "map_of (entries (y_gw s)) k = Some j" and ne: "k \<noteq> ?u"
      by (auto simp: ent split: if_splits)
    then show "live ?ids (y_accept s) j" "fst (?ids ! j) = k" using reg_okD(2) [OF inv old] by auto
    with ne show "j \<noteq> i" by auto
  next
    fix j assume op: "gw_agents gw \<noteq> None" and j: "live ?ids (y_accept s) j \<and> j \<noteq> i"
    have old: "map_of (entries (y_gw s)) (fst (?ids ! j)) = Some j"
      using reg_okD(3) [OF inv, of j] op j nil by auto
    moreover have "fst (?ids ! j) \<noteq> ?u" using old key op nil j by auto
    ultimately show "map_of (entries gw) (fst (?ids ! j)) = Some j" by (simp add: ent)
  next
    fix j assume "y_accept s = Some j"
    with acc reg_okD(5) [OF inv this] show "j < length ?ids'" "snd (?ids' ! j) = FNone"
      by (cases "i = j"; auto)+
  qed (use dist reg_okD(4) [OF inv] in auto)
  moreover have "waiting ?ids' = waiting ?ids"
    using i by (simp add: waiting_update)
  ultimately show ?thesis
    using assms(1,2) by (simp add: sys_inv_def fin_remove_def set_fin_ids gw_def)
qed

lemma fin_move_inv:
  assumes "sys_inv s" and "i < length (y_slots s)"
    and "sl_fin (y_slots s ! i) \<in> {FClose, FCheck, FForward}" and "pc \<in> {FCheck, FForward, FDone}"
  shows "sys_inv (set_fin i pc s)"
proof -
  let ?ids = "slot_ids s"
  let ?ids' = "?ids[i := (fst (?ids ! i), pc)]"
  note inv = assms(1) [unfolded sys_inv_def]
  have i: "i < length ?ids" "snd (?ids ! i) \<in> {FClose, FCheck, FForward}" using assms(2,3) by simp_all
  have acc: "y_accept s \<noteq> Some i" using reg_okD(5) [OF conjunct1 [OF inv], of i] i by auto
  have "live ?ids' (y_accept s) j = live ?ids (y_accept s) j" for j
    using i assms(4) by (cases "i = j") (auto simp: live_def)
  moreover have "j < length ?ids \<and> snd (?ids' ! j) = FNone" if "y_accept s = Some j" for j
    using that acc reg_okD(5) [OF conjunct1 [OF inv] that] by (cases "i = j") auto
  ultimately have "reg_ok ?ids' (y_accept s) (y_gw s)"
    using inv i(1) by (intro reg_ok_move) auto
  moreover have "waiting ?ids' = waiting ?ids"
    using i assms(4) by (auto simp: waiting_update)
  ultimately show ?thesis
    using inv assms(2) by (simp add: sys_inv_def set_fin_ids)
qed

lemma keep_slot:
  assumes "sys_keep s t" and "i < length (y_slots s)"
  shows "i < length (y_slots t) \<and> sl_fin (y_slots t ! i) = sl_fin (y_slots s ! i) \<and>
    a_cid (sl_agent (y_slots t ! i)) = a_cid (sl_agent (y_slots s ! i))"
proof -
  have eq: "slot_ids t = slot_ids s" using assms(1) by (simp add: sys_keep_def)
  have "i < length (y_slots t)" using arg_cong [OF eq, of length] assms(2) by simp
  with assms(2) arg_cong [OF eq, of "\<lambda>l. l ! i"] show ?thesis by simp
qed

lemma fin_close_inv:
  assumes "sys_inv s" and "i < length (y_slots s)" and "sl_fin (y_slots s ! i) = FClose"
  shows "sys_inv (fin_close i s)"
proof -
  let ?t = "on_slot_agent i (\<lambda>a. set_conn (conn_Close (conn_of a)) a) s"
  have k: "sys_keep s ?t" "y_gw ?t = y_gw s" using on_slot_agent_keep [of _ s i] by simp_all
  from fin_move_inv [OF sys_inv_keep [OF assms(1) k]] keep_slot [OF k(1) assms(2)] assms(3)
  show ?thesis by (simp add: fin_close_def)
qed

lemma fin_check_inv:
  assumes "sys_inv s" and "i < length (y_slots s)" and "sl_fin (y_slots s ! i) = FCheck"
  shows "sys_inv (fin_check i s)"
proof (cases "a_disable (sl_agent (y_slots s ! i))")
  case True
  with fin_move_inv [OF assms(1,2)] assms(3) show ?thesis by (simp add: fin_check_def)
next
  case False
  let ?t = "on_slot_agent i agent_Disable s"
  have k: "sys_keep s ?t" "y_gw ?t = y_gw s" using on_slot_agent_keep [of agent_Disable s i] by simp_all
  from fin_move_inv [OF sys_inv_keep [OF assms(1) k]] keep_slot [OF k(1) assms(2)] assms(3) False
  show ?thesis by (simp add: fin_check_def)
qed

text \<open>What a forward in the finalizer does, as a local change of the agent and a move.\<close>

lemma fin_forward_split:
  obtains l where "gkeep (l_g l) = gkeep (l_g (focus i s))"
    and "fin_forward e i s = set_fin i FDone (put_back i l s)"
proof -
  obtain r g where f: "ForwadHttp e (Msg 5006 []) (l_g (focus i s)) = (r, g)" by fastforce
  define h where "h = (case r of
      Panic p \<Rightarrow> AlertAuto (AgentPanic (a_cid (g_agent g)) (a_address (g_agent g)) p) g | Ret _ \<Rightarrow> g)"
  have "gkeep h = gkeep (l_g (focus i s))"
    using gkeep_ForwadHttp [OF f] by (simp add: h_def split: go.split)
  moreover have "fin_forward e i s = set_fin i FDone (put_back i ((focus i s)\<lparr>l_g := h\<rparr>) s)"
    by (simp add: fin_forward_def f h_def Let_def)
  ultimately show ?thesis using that [of "(focus i s)\<lparr>l_g := h\<rparr>"] by simp
qed

lemma fin_forward_inv:
  assumes "sys_inv s" and "i < length (y_slots s)" and "sl_fin (y_slots s ! i) = FForward"
  shows "sys_inv (fin_forward e i s)"
proof -
  obtain l where l: "gkeep (l_g l) = gkeep (l_g (focus i s))"
    "fin_forward e i s = set_fin i FDone (put_back i l s)"
    using fin_forward_split .
  note k = put_back_keep [OF l(1)]
  from fin_move_inv [OF sys_inv_keep [OF assms(1) k]] keep_slot [OF k(1) assms(2)] assms(3)
  show ?thesis by (simp add: l(2))
qed

subsection \<open>Closing the gateway, and all steps together\<close>

lemma foldl_close_keep:
  "sys_keep s (foldl (\<lambda>s i. on_slot_agent i agent_Close s) s is)"
proof (induction "is" arbitrary: s)
  case Nil
  then show ?case by simp
next
  case (Cons i "is")
  have "sys_keep s (on_slot_agent i agent_Close s)" using on_slot_agent_keep [of agent_Close s i] by simp
  with Cons [of "on_slot_agent i agent_Close s"] show ?case by (auto intro: sys_keep_trans)
qed

lemma reg_ok_nil: "reg_ok ids acc gw \<Longrightarrow> reg_ok ids acc (gw\<lparr>gw_agents := None\<rparr>)"
  by (simp add: reg_ok_def entries_def)

lemma sys_Close_inv:
  assumes "sys_inv s"
  shows "sys_inv (sys_Close s)"
proof -
  let ?t = "foldl (\<lambda>s i. on_slot_agent i agent_Close s) s (map snd (entries (y_gw s)))"
  have t: "sys_Close s = ?t\<lparr>y_gw := (y_gw s)\<lparr>gw_agents := None\<rparr>\<rparr>"
    by (simp add: sys_Close_def gateway_Close_def)
  have "slot_ids ?t = slot_ids s" "y_accept ?t = y_accept s"
    "CountConnection (y_met ?t) = CountConnection (y_met s)"
    using foldl_close_keep [of s] by (simp_all add: sys_keep_def)
  with assms reg_ok_nil show ?thesis by (simp add: t sys_inv_def)
qed

lemma sys_step_inv:
  assumes "sys_step err_text e s l t" and "sys_inv s"
  shows "sys_inv t"
proof (cases "(\<exists>i. l = EvAdd i) \<or> (\<exists>i. l = EvRun i) \<or> (\<exists>i pc. l = EvFin i pc) \<or> l = EvClose")
  case False
  with sys_step_keep [OF assms(1)] assms(2) show ?thesis by (blast intro: sys_inv_keep)
next
  case True
  from assms True show ?thesis
  proof (induction rule: sys_step.induct)
    case (add s now rnd c address)
    then show ?case using accept_add_inv by blast
  next
    case (start s i)
    then show ?case using accept_run_inv by blast
  next
    case (fin i s pc)
    then show ?case
      by (cases pc) (auto intro: fin_count_inv fin_remove_inv fin_close_inv fin_check_inv fin_forward_inv)
  next
    case (close s)
    then show ?case using sys_Close_inv by blast
  qed auto
qed

lemma sys_run_inv: "sys_run err_text e ls s \<Longrightarrow> sys_inv s"
  by (induction rule: sys_run.induct) (auto intro: sys_inv_init sys_step_inv)

end
