(* ===== verification/System_Trace.thy ===== *)
theory System_Trace
  imports System_Inv
begin

text \<open>
  What a run of the process says about one agent: the order of its finalizer's steps, and
  that a disabled agent stays disabled.
\<close>

section \<open>Finalizer positions\<close>

definition fins :: "sys \<Rightarrow> fpc list" where
  "fins s = map sl_fin (y_slots s)"

lemma fins_ids: "fins s = map snd (slot_ids s)"
  by (simp add: fins_def slot_ids_def)

lemma fins_nth [simp]: "i < length (y_slots s) \<Longrightarrow> fins s ! i = sl_fin (y_slots s ! i)"
  by (simp add: fins_def)

lemma length_fins [simp]: "length (fins s) = length (y_slots s)"
  by (simp add: fins_def)

lemma fins_keep: "sys_keep s t \<Longrightarrow> fins t = fins s"
  by (simp add: fins_ids sys_keep_def)

inductive fpc_next :: "fpc \<Rightarrow> fpc \<Rightarrow> bool" where
  "fpc_next FWait FRemove"
| "fpc_next FRemove FClose"
| "fpc_next FClose FCheck"
| "fpc_next FCheck FForward"
| "fpc_next FCheck FDone"
| "fpc_next FForward FDone"

inductive_simps fpc_next_from [simp]:
  "fpc_next FNone x" "fpc_next FWait x" "fpc_next FRemove x" "fpc_next FClose x"
  "fpc_next FCheck x" "fpc_next FForward x" "fpc_next FDone x"

lemma fins_set_fin: "fins (set_fin i pc s) = (fins s)[i := pc]"
  by (simp add: fins_def set_fin_def on_slot_def map_update)

lemma fins_met [simp]: "fins (s\<lparr>y_met := m\<rparr>) = fins s" "fins (s\<lparr>y_gw := gw\<rparr>) = fins s"
  "fins (s\<lparr>y_met := m, y_accept := acc\<rparr>) = fins s"
  by (simp_all add: fins_def)

lemma fin_step_fins:
  assumes "sl_fin (y_slots s ! i) = pc" and "pc \<noteq> FNone" and "pc \<noteq> FDone"
  shows "\<exists>nxt. fpc_next pc nxt \<and> fins (fin_step e pc i s) = (fins s)[i := nxt]"
proof (cases pc)
  case FClose
  then show ?thesis
    using fins_keep [of s "on_slot_agent i (\<lambda>a. set_conn (conn_Close (conn_of a)) a) s"]
      on_slot_agent_keep [of "\<lambda>a. set_conn (conn_Close (conn_of a)) a" s i]
    by (simp add: fin_close_def fins_set_fin)
next
  case FCheck
  then show ?thesis
    using fins_keep [of s "on_slot_agent i agent_Disable s"] on_slot_agent_keep [of agent_Disable s i]
    by (auto simp: fin_check_def fins_set_fin)
next
  case FForward
  obtain l where l: "gkeep (l_g l) = gkeep (l_g (focus i s))"
    "fin_forward e i s = set_fin i FDone (put_back i l s)"
    using fin_forward_split .
  then show ?thesis
    using fins_keep [OF put_back_keep(1) [OF l(1)]] FForward by (simp add: fins_set_fin)
qed (use assms in \<open>simp_all add: fin_count_def fin_remove_def fins_set_fin\<close>)

lemma accept_add_fins: "fins (accept_add now rnd c address s) = fins s @ [FNone]"
  by (auto simp: accept_add_def fins_def on_slot_agent_def on_slot_def Let_def nth_append
      list_update_append split: prod.splits go.splits option.splits)

text \<open>What each event says about the positions before and after it.\<close>

definition fins_step :: "event \<Rightarrow> fpc list \<Rightarrow> fpc list \<Rightarrow> bool" where
  "fins_step l fs gs \<longleftrightarrow>
     (case l of
        EvAdd i \<Rightarrow> i = length fs \<and> gs = fs @ [FNone]
      | EvRun i \<Rightarrow> i < length fs \<and> fs ! i = FNone \<and> gs = fs[i := FWait]
      | EvFin i pc \<Rightarrow> i < length fs \<and> fs ! i = pc \<and> (\<exists>nxt. fpc_next pc nxt \<and> gs = fs[i := nxt])
      | _ \<Rightarrow> gs = fs)"

lemma sys_step_fins:
  assumes "sys_step err_text e s l t" and "sys_inv s"
  shows "fins_step l (fins s) (fins t)"
proof (cases "(\<exists>i. l = EvAdd i) \<or> (\<exists>i. l = EvRun i) \<or> (\<exists>i pc. l = EvFin i pc) \<or> l = EvClose")
  case False
  then have "fins t = fins s" using sys_step_keep [OF assms(1)] fins_keep by blast
  with False show ?thesis by (auto simp: fins_step_def split: event.splits)
next
  case True
  from assms True show ?thesis
  proof (induction rule: sys_step.induct)
    case (add s now rnd c address)
    then show ?case by (simp add: fins_step_def accept_add_fins)
  next
    case (start s i)
    then have "i < length (y_slots s) \<and> sl_fin (y_slots s ! i) = FNone"
      using reg_okD(5) [of "slot_ids s" "y_accept s" "y_gw s" i] by (auto simp: sys_inv_def)
    then show ?case by (simp add: fins_step_def accept_run_def fins_set_fin)
  next
    case (fin i s pc)
    then show ?case using fin_step_fins [of s i pc e] by (simp add: fins_step_def)
  next
    case (close s)
    have "fins (sys_Close s) = fins s"
      using fins_keep [OF foldl_close_keep] by (simp add: sys_Close_def gateway_Close_def)
    then show ?case by (simp add: fins_step_def)
  qed auto
qed

inductive fins_run :: "event list \<Rightarrow> fpc list \<Rightarrow> bool" where
  "fins_run [] []"
| "fins_run ls fs \<Longrightarrow> fins_step l fs gs \<Longrightarrow> fins_run (ls @ [l]) gs"

lemma sys_run_fins: "sys_run err_text e ls s \<Longrightarrow> fins_run ls (fins s)"
proof (induction rule: sys_run.induct)
  case init
  show ?case by (simp add: sys_init_def fins_def fins_run.intros)
next
  case (step ls s l t)
  then show ?case using fins_run.intros(2) sys_step_fins sys_run_inv by blast
qed

section \<open>The events of one finalizer\<close>

text \<open>
  Which events have been there is determined by the position, except that the forward may
  have been left out.
\<close>

fun fin_before :: "fpc \<Rightarrow> fpc list" where
  "fin_before FNone = []"
| "fin_before FWait = []"
| "fin_before FRemove = [FWait]"
| "fin_before FClose = [FWait, FRemove]"
| "fin_before FCheck = [FWait, FRemove, FClose]"
| "fin_before FForward = [FWait, FRemove, FClose, FCheck]"
| "fin_before FDone = [FWait, FRemove, FClose, FCheck]"

definition fin_trace :: "nat \<Rightarrow> event list \<Rightarrow> fpc list" where
  "fin_trace i ls = concat (map (\<lambda>l. case l of EvFin j pc \<Rightarrow> if j = i then [pc] else [] | _ \<Rightarrow> []) ls)"

lemma fin_trace_simps [simp]:
  "fin_trace i [] = []" "fin_trace i (ls @ ks) = fin_trace i ls @ fin_trace i ks"
  "fin_trace i [EvFin j pc] = (if j = i then [pc] else [])"
  by (simp_all add: fin_trace_def)

lemma fin_trace_other: "(\<And>j pc. l \<noteq> EvFin j pc) \<Longrightarrow> fin_trace i [l] = []"
  by (cases l) (auto simp add: fin_trace_def)

lemma fin_trace_in: "EvFin i pc \<in> set ls \<longleftrightarrow> pc \<in> set (fin_trace i ls)"
  by (induction ls) (auto simp: fin_trace_def split: event.splits if_splits)

definition fin_trace_ok :: "fpc option \<Rightarrow> fpc list \<Rightarrow> bool" where
  "fin_trace_ok pc tr \<longleftrightarrow>
     (case pc of
        None \<Rightarrow> tr = []
      | Some FDone \<Rightarrow> tr = fin_before FDone \<or> tr = fin_before FDone @ [FForward]
      | Some pc \<Rightarrow> tr = fin_before pc)"

definition pos :: "fpc list \<Rightarrow> nat \<Rightarrow> fpc option" where
  "pos fs i = (if i < length fs then Some (fs ! i) else None)"

lemma fin_trace_next:
  "fpc_next pc nxt \<Longrightarrow> fin_trace_ok (Some pc) tr \<Longrightarrow> fin_trace_ok (Some nxt) (tr @ [pc])"
  by (cases rule: fpc_next.cases) (auto simp: fin_trace_ok_def)

lemma fins_run_trace: "fins_run ls fs \<Longrightarrow> fin_trace_ok (pos fs i) (fin_trace i ls)"
proof (induction rule: fins_run.induct)
  case 1
  show ?case by (simp add: pos_def fin_trace_ok_def)
next
  case (2 ls fs l gs)
  show ?case
  proof (cases "\<exists>j pc. l = EvFin j pc")
    case True
    then obtain j pc nxt where l: "l = EvFin j pc" "j < length fs" "fs ! j = pc" "fpc_next pc nxt"
      "gs = fs[j := nxt]"
      using 2(2) by (auto simp: fins_step_def)
    show ?thesis
    proof (cases "j = i")
      case True
      with 2(3) l fin_trace_next [OF l(4)] show ?thesis by (simp add: pos_def)
    next
      case False
      with 2(3) l show ?thesis by (simp add: pos_def split: if_splits)
    qed
  next
    case False
    then have "fin_trace i [l] = []" by (intro fin_trace_other) auto
    moreover have "pos gs i = pos fs i \<or> (pos fs i = None \<and> pos gs i = Some FNone) \<or>
        (pos fs i = Some FNone \<and> pos gs i = Some FWait)"
      using 2(2) False
      by (auto simp: fins_step_def pos_def nth_append nth_list_update split: event.splits if_splits)
    ultimately show ?thesis using 2(3) by (auto simp: fin_trace_ok_def)
  qed
qed

lemma sys_run_fin_trace:
  "sys_run err_text e ls s \<Longrightarrow> fin_trace_ok (pos (fins s) i) (fin_trace i ls)"
  using sys_run_fins fins_run_trace by blast

section \<open>Single agents\<close>

definition agent_at :: "sys \<Rightarrow> nat \<Rightarrow> agent" where
  "agent_at s i = sl_agent (y_slots s ! i)"

lemma agent_at_on_slot [simp]:
  "i < length (y_slots s) \<Longrightarrow>
     agent_at (on_slot_agent j f s) i = (if i = j then f (agent_at s i) else agent_at s i)"
  "length (y_slots (on_slot_agent j f s)) = length (y_slots s)"
  by (cases "i = j"; simp add: agent_at_def on_slot_agent_def on_slot_def)+

lemma agent_at_set_fin [simp]:
  "i < length (y_slots s) \<Longrightarrow> agent_at (set_fin j pc s) i = agent_at s i"
  by (cases "i = j") (simp_all add: agent_at_def set_fin_def on_slot_def)

lemma agent_at_put_back [simp]:
  "i < length (y_slots s) \<Longrightarrow>
     agent_at (put_back j l s) i = (if i = j then g_agent (l_g l) else agent_at s i)"
  "length (y_slots (put_back j l s)) = length (y_slots s)"
  by (cases "i = j"; simp add: agent_at_def put_back_def)+

lemma agent_at_more [simp]:
  "agent_at (s\<lparr>y_met := m\<rparr>) i = agent_at s i" "agent_at (s\<lparr>y_gw := gw\<rparr>) i = agent_at s i"
  "agent_at (s\<lparr>y_met := m, y_accept := acc\<rparr>) i = agent_at s i"
  "agent_at (s\<lparr>y_alerts := al\<rparr>) i = agent_at s i" "agent_at (s\<lparr>y_threads := th\<rparr>) i = agent_at s i"
  "agent_at (s\<lparr>y_met := m, y_alerts := al\<rparr>) i = agent_at s i"
  "agent_at (s\<lparr>y_met := m, y_alerts := al, y_threads := th\<rparr>) i = agent_at s i"
  "agent_at (s\<lparr>y_clock := n\<rparr>) i = agent_at s i"
  by (simp_all add: agent_at_def)

lemma focus_agent [simp]: "g_agent (l_g (focus i s)) = agent_at s i"
  by (simp add: focus_def agent_at_def Let_def)

lemma agent_Close_idem [simp]: "agent_Close (agent_Close a) = agent_Close a"
  by (simp add: agent_Close_def)

lemma foldl_close:
  "length (y_slots (foldl (\<lambda>s i. on_slot_agent i agent_Close s) s is)) = length (y_slots s)"
  "i < length (y_slots s) \<Longrightarrow>
     agent_at (foldl (\<lambda>s i. on_slot_agent i agent_Close s) s is) i =
       (if i \<in> set is then agent_Close (agent_at s i) else agent_at s i)"
  by (induction "is" arbitrary: s) auto

lemma accept_add_agent:
  assumes "i < length (y_slots s)"
  shows "agent_at (accept_add now rnd c address s) i = agent_at s i"
    and "length (y_slots (accept_add now rnd c address s)) = Suc (length (y_slots s))"
  using assms
  by (auto simp: accept_add_def agent_at_def on_slot_agent_def on_slot_def Let_def nth_append
      nth_list_update split: prod.splits go.splits option.splits)

lemma act_step_agent:
  assumes "act_step e a s = (pre, new, t)" and "i < length (y_slots s)"
  shows "length (y_slots t) = length (y_slots s)"
    and "a_disable (agent_at s i) \<Longrightarrow> a_disable (agent_at t i)"
    and "a = ADisable i \<Longrightarrow> a_disable (agent_at t i)"
    and "a_done (agent_at s i) \<Longrightarrow> a_done (agent_at t i)"
  using assms
  by (cases a; auto split: option.splits if_splits go.splits)+

lemma sys_step_disable:
  assumes "sys_step err_text e s l t" and "i < length (y_slots s)"
  shows "i < length (y_slots t) \<and> (a_disable (agent_at s i) \<longrightarrow> a_disable (agent_at t i)) \<and>
    (l = EvAct (ADisable i) \<longrightarrow> a_disable (agent_at t i))"
  using assms
proof (induction rule: sys_step.induct)
  case (add s now rnd c address)
  then show ?case using accept_add_agent [of i s] by simp
next
  case (local j s l)
  from loc_step_gkeep [OF local(3)] have "a_disable (g_agent (l_g l)) = a_disable (agent_at s j)"
    by (simp add: gkeep_def)
  then show ?case using local by auto
next
  case (fin j s pc)
  show ?case
  proof (cases pc)
    case FForward
    obtain l where l: "gkeep (l_g l) = gkeep (l_g (focus j s))"
      "fin_forward e j s = set_fin j FDone (put_back j l s)"
      using fin_forward_split .
    then show ?thesis using fin FForward by (auto simp: gkeep_def)
  qed (use fin in \<open>auto simp: fin_count_def fin_remove_def fin_close_def fin_check_def\<close>)
next
  case (act s ts a as ts' pre new t)
  from act_step_agent [OF act(2,3)] act(3) show ?case by auto
next
  case (close s)
  then show ?case by (simp add: sys_Close_def gateway_Close_def foldl_close)
qed (auto simp: accept_run_def http_start_def split: prod.splits)

section \<open>The handlers only act on agents that exist\<close>

fun act_ok :: "nat \<Rightarrow> act \<Rightarrow> bool" where
  "act_ok n (ADisable i) \<longleftrightarrow> i < n"
| "act_ok n (AClose i) \<longleftrightarrow> i < n"
| "act_ok n (AWrite i m b) \<longleftrightarrow> i < n"
| "act_ok n (AGo as) \<longleftrightarrow> (\<forall>a \<in> set as. act_ok n a)"
| "act_ok n _ \<longleftrightarrow> True"

lemma act_ok_mono: "act_ok n a \<Longrightarrow> n \<le> m \<Longrightarrow> act_ok m a"
  by (induction n a rule: act_ok.induct) auto

definition threads_ok :: "nat \<Rightarrow> act list list \<Rightarrow> bool" where
  "threads_ok n ths \<longleftrightarrow> (\<forall>th \<in> set ths. \<forall>a \<in> set th. act_ok n a)"

lemma threads_ok_mono: "threads_ok n ths \<Longrightarrow> n \<le> m \<Longrightarrow> threads_ok m ths"
  unfolding threads_ok_def by (meson act_ok_mono)

lemma GetAgent_live:
  "sys_inv s \<Longrightarrow> GetAgent k (y_gw s) = Some i \<Longrightarrow> i < length (y_slots s)"
  using reg_okD(2) [of "slot_ids s" "y_accept s" "y_gw s" k i]
  by (auto simp: sys_inv_def GetAgent_def live_def split: if_splits)

lemma serve_ok:
  assumes "sys_inv s" and "serve (y_gw s) r = (resp, acts, al)"
  shows "\<forall>a \<in> set acts. act_ok (length (y_slots s)) a"
  using assms(2) GetAgent_live [OF assms(1)]
  by (auto simp: serve_def handle_close_def handle_send_def handle_sendAndClose_def
      handle_broadcast_def Let_def split: inbound.splits sum.splits option.splits if_splits)

lemma act_step_more:
  assumes "act_step e a s = (pre, new, t)" and "act_ok n a"
  shows "(\<forall>b \<in> set pre. act_ok n b) \<and> threads_ok n new \<and> y_threads t = y_threads s \<and>
    length (y_slots t) = length (y_slots s)"
  using assms
  by (cases a) (auto simp: threads_ok_def on_slot_agent_def on_slot_def
      split: option.splits if_splits go.splits)

lemma keep_threads [simp]:
  "y_threads (set_fin i pc s) = y_threads s" "y_threads (on_slot_agent i f s) = y_threads s"
  "y_threads (put_back i l s) = y_threads s"
  by (simp_all add: set_fin_def on_slot_agent_def on_slot_def put_back_def)

lemma foldl_close_threads:
  "y_threads (foldl (\<lambda>s i. on_slot_agent i agent_Close s) s is) = y_threads s"
  by (induction "is" arbitrary: s) simp_all

lemma sys_step_threads:
  assumes "sys_step err_text e s l t" and "sys_inv s"
    and "threads_ok (length (y_slots s)) (y_threads s)"
  shows "threads_ok (length (y_slots t)) (y_threads t)"
  using assms
proof (induction rule: sys_step.induct)
  case (add s now rnd c address)
  have "y_threads (accept_add now rnd c address s) = y_threads s"
    and "length (y_slots (accept_add now rnd c address s)) = Suc (length (y_slots s))"
    by (auto simp: accept_add_def on_slot_agent_def on_slot_def Let_def
        split: prod.splits go.splits option.splits)
  with add threads_ok_mono show ?case by simp
next
  case (fin i s pc)
  then show ?case
    by (cases pc) (auto simp: fin_count_def fin_remove_def fin_close_def fin_check_def
        fin_forward_def Let_def split: prod.splits)
next
  case (http path r s resp t)
  obtain acts al where sv: "serve (y_gw s) r = (resp, acts, al)"
    and t: "t = s\<lparr>y_met := http_enter (y_met s), y_alerts := y_alerts s @ al,
      y_threads := y_threads s @ [acts @ [ALog path (y_clock s)]]\<rparr>"
    using http(1) by (auto simp: http_start_def split: prod.splits)
  with http serve_ok [OF http(2) sv] show ?case by (auto simp: threads_ok_def)
next
  case (act s ts a as ts' pre new t)
  then have ok: "act_ok (length (y_slots s)) a" by (auto simp: threads_ok_def)
  from act_step_more [OF act(2) ok] act show ?case by (auto simp: threads_ok_def)
next
  case (close s)
  then show ?case by (simp add: sys_Close_def gateway_Close_def foldl_close foldl_close_threads)
qed (auto simp: accept_run_def)

lemma sys_run_threads:
  "sys_run err_text e ls s \<Longrightarrow> threads_ok (length (y_slots s)) (y_threads s)"
proof (induction rule: sys_run.induct)
  case init
  show ?case by (simp add: sys_init_def threads_ok_def)
next
  case (step ls s l t)
  then show ?case using sys_step_threads sys_run_inv by blast
qed

section \<open>Every agent's goroutines keep the limit on running requests\<close>

definition conc_of :: "loc \<Rightarrow> conc" where
  "conc_of l = \<lparr>k_g = l_g l, k_jobs = l_run l\<rparr>"

definition conc_view :: "nat \<Rightarrow> sys \<Rightarrow> conc" where
  "conc_view i s = conc_of (focus i s)"

lemma conc_view_other:
  assumes "a_storage (agent_at t i) ''concurrent'' = a_storage (agent_at s i) ''concurrent''"
    and "sl_jobs (y_slots t ! i) = sl_jobs (y_slots s ! i)"
    and "sl_run (y_slots t ! i) = sl_run (y_slots s ! i)"
  shows "conc_step (conc_view i s) (conc_view i t)"
proof -
  have "conc_view i t = (conc_view i s)\<lparr>k_g := l_g (focus i t)\<rparr>"
    using assms(3) by (simp add: conc_view_def conc_of_def focus_def Let_def)
  moreover have "conc_step (conc_view i s) ((conc_view i s)\<lparr>k_g := l_g (focus i t)\<rparr>)"
    using assms(1,2) by (intro conc_step.other)
      (simp_all add: conc_view_def conc_of_def focus_def agent_at_def Let_def)
  ultimately show ?thesis by simp
qed

lemma loc_step_conc:
  assumes "loc_step err_text e l l'"
  shows "conc_step (conc_of l) (conc_of l')"
proof -
  have other: "conc_step (conc_of l) (conc_of l')"
    if "conc_part (l_g l') = conc_part (l_g l)" "l_run l' = l_run l" for l l'
  proof -
    have "conc_of l' = (conc_of l)\<lparr>k_g := l_g l'\<rparr>" using that(2) by (simp add: conc_of_def)
    with that(1) conc_step.other [of "l_g l'" "conc_of l"] show ?thesis
      by (simp add: conc_part_def conc_of_def)
  qed
  have keep: "conc_part (read_exit err_text r g) = conc_part g"
    "conc_part (write_exit err_text x g) = conc_part g" for r x g
    by (auto simp: read_exit_def write_exit_def conc_part_def AlertLowFrequency_def agent_Close_def Let_def
        split: loop_exit.split option.split)
  note keep = keep [unfolded conc_part_def prod.inject]
  from assms show ?thesis
  proof (induction rule: loc_step.induct)
    case (chain l m r g)
    from conc_step.recv [of e m "conc_of l" r g] chain show ?case by (simp add: conc_of_def)
  next
    case (spawn l ms m ms')
    from conc_step.spawn [of "conc_of l" ms m ms'] spawn show ?case by (simp add: conc_of_def)
  next
    case (run l js m pc js' pc' g)
    from conc_step.run [of "conc_of l" js m pc js' e pc' g] run show ?case by (simp add: conc_of_def)
  qed (auto intro!: other simp: keep conc_part_def set_conn_def agent_recv_def dest: loop_keep)
qed

lemma focus_put_back:
  "i < length (y_slots s) \<Longrightarrow> focus i (put_back i l s) = l"
  by (simp add: focus_def put_back_def Let_def)

lemma focus_set_fin [simp]: "i < length (y_slots s) \<Longrightarrow> focus i (set_fin j pc s) = focus i s"
  by (cases "i = j") (simp_all add: focus_def set_fin_def on_slot_def Let_def)

lemma conc_view_set_fin [simp]:
  "i < length (y_slots s) \<Longrightarrow> conc_view i (set_fin j pc s) = conc_view i s"
  by (simp add: conc_view_def)

lemma conc_view_put_other:
  "i < length (y_slots s) \<Longrightarrow> i \<noteq> j \<Longrightarrow> conc_step (conc_view i s) (conc_view i (put_back j l s))"
  by (intro conc_view_other) (simp_all add: put_back_def agent_at_def)

lemma conc_view_agent:
  assumes "i < length (y_slots s)" and "\<And>a. a_storage (f a) = a_storage a"
  shows "conc_step (conc_view i s) (conc_view i (on_slot_agent j f s))"
  using assms
  by (intro conc_view_other; cases "i = j") (simp_all add: on_slot_agent_def on_slot_def agent_at_def)

lemma conc_view_same:
  assumes "y_slots t = y_slots s"
  shows "conc_step (conc_view i s) (conc_view i t)"
  using assms by (intro conc_view_other) (simp_all add: agent_at_def)

lemma storage_keep [simp]:
  "a_storage (agent_Close a) = a_storage a" "a_storage (agent_Disable a) = a_storage a"
  "a_storage (set_conn c a) = a_storage a"
  by (simp_all add: agent_Close_def agent_Disable_def set_conn_def)

lemma ForwadHttp_conc_part:
  assumes "ForwadHttp e m g = (r, g')"
  shows "conc_part g' = conc_part g"
proof -
  obtain r0 a where ns: "next_seq (g_agent g) = (r0, a)" by fastforce
  have a: "conc_part (g\<lparr>g_agent := a\<rparr>) = conc_part g"
    using ns by (cases rule: next_seq_cases) (simp_all add: conc_part_def agent_Set_def)
  with assms ns show ?thesis
    by (auto simp: ForwadHttp_def Let_def dest!: conc_part_http_send conc_part_http_reply
        split: go.splits prod.splits)
qed

lemma conc_view_fin:
  assumes "i < length (y_slots s)"
  shows "conc_step (conc_view i s) (conc_view i (fin_step e pc j s))"
proof (cases pc)
  case FForward
  obtain r g where f: "ForwadHttp e (Msg 5006 []) (l_g (focus j s)) = (r, g)" by fastforce
  define h where "h = (case r of
      Panic p \<Rightarrow> AlertAuto (AgentPanic (a_cid (g_agent g)) (a_address (g_agent g)) p) g | Ret _ \<Rightarrow> g)"
  have h: "conc_part h = conc_part (l_g (focus j s))"
    using ForwadHttp_conc_part [OF f] by (simp add: h_def split: go.split)
  have fw: "fin_forward e j s = set_fin j FDone (put_back j ((focus j s)\<lparr>l_g := h\<rparr>) s)"
    by (simp add: fin_forward_def f h_def Let_def)
  have "conc_step (conc_view i s) (conc_view i (put_back j ((focus j s)\<lparr>l_g := h\<rparr>) s))"
  proof (cases "i = j")
    case True
    with assms have view: "conc_view i (put_back j ((focus j s)\<lparr>l_g := h\<rparr>) s) = (conc_view i s)\<lparr>k_g := h\<rparr>"
      by (simp add: conc_view_def focus_put_back conc_of_def)
    show ?thesis
      unfolding view using h True
      by (intro conc_step.other) (simp_all add: conc_part_def conc_view_def conc_of_def)
  next
    case False
    with assms show ?thesis by (rule conc_view_put_other)
  qed
  then show ?thesis using assms by (simp add: FForward fw)
next
  case FClose
  then show ?thesis using conc_view_agent [OF assms, of "\<lambda>a. set_conn (conn_Close (conn_of a)) a" j] assms
    by (simp add: fin_close_def)
next
  case FCheck
  then show ?thesis
    using conc_view_agent [OF assms, of agent_Disable j] conc_view_same [of s s i] assms
    by (simp add: fin_check_def)
qed (use assms conc_view_same in \<open>simp_all add: fin_count_def fin_remove_def\<close>)

lemma act_step_slots:
  assumes "act_step e a s = (pre, new, t)"
  shows "y_slots t = y_slots s \<or> (\<exists>f j. t = on_slot_agent j f s \<and> (\<forall>a. a_storage (f a) = a_storage a))"
proof (cases a)
  case (ALookupWrite k m b p)
  then show ?thesis
    using assms by (auto split: option.splits intro!: exI [of _ "\<lambda>a. snd (agent_Write _ _ _ _ a)"])
qed (use assms in \<open>auto split: if_splits go.splits\<close>)

lemma sys_step_conc:
  assumes "sys_step err_text e s l t" and "i < length (y_slots s)"
  shows "conc_step (conc_view i s) (conc_view i t)"
  using assms
proof (induction rule: sys_step.induct)
  case (add s now rnd c address)
  have "y_slots (accept_add now rnd c address s) ! i = y_slots s ! i"
    using add by (auto simp: accept_add_def on_slot_agent_def on_slot_def Let_def nth_append
        split: prod.splits go.splits option.splits)
  then show ?case by (intro conc_view_other) (simp_all add: agent_at_def)
next
  case (start s j)
  have "conc_step (conc_view i s) (conc_view i (s\<lparr>y_met := count_conn 1 (y_met s), y_accept := None\<rparr>))"
    by (rule conc_view_same) simp
  with start show ?case by (simp add: accept_run_def)
next
  case (local j s l)
  show ?case
  proof (cases "i = j")
    case True
    with local loc_step_conc [OF local(3)] show ?thesis by (simp add: conc_view_def focus_put_back)
  next
    case False
    with local show ?thesis by (intro conc_view_put_other) simp_all
  qed
next
  case (fin j s pc)
  then show ?case using conc_view_fin by blast
next
  case (http path r s resp t)
  then have "y_slots t = y_slots s" by (auto simp: http_start_def split: prod.splits)
  then show ?case by (rule conc_view_same)
next
  case (act s ts a as ts' pre new t)
  let ?t = "t\<lparr>y_threads := ts @ (pre @ as) # ts' @ new\<rparr>"
  have same: "conc_view i ?t = conc_view i t" by (simp add: conc_view_def focus_def)
  from act_step_slots [OF act(2)] show ?case
    unfolding same using conc_view_same [of t s i] conc_view_agent [OF act(3)] by blast
next
  case (close s)
  have "sl_jobs (y_slots (foldl (\<lambda>s i. on_slot_agent i agent_Close s) s is) ! i) = sl_jobs (y_slots s ! i) \<and>
      sl_run (y_slots (foldl (\<lambda>s i. on_slot_agent i agent_Close s) s is) ! i) = sl_run (y_slots s ! i)" for "is"
    using close(1)
  proof (induction "is" arbitrary: s)
    case (Cons j "is")
    have "i < length (y_slots (on_slot_agent j agent_Close s))" using Cons.prems by simp
    from Cons.IH [OF this] Cons.prems show ?case
      by (cases "i = j") (simp_all add: on_slot_agent_def on_slot_def)
  qed simp
  with close show ?case
    by (intro conc_view_other) (simp_all add: sys_Close_def gateway_Close_def foldl_close)
qed (rule conc_view_same; simp)+

end
