(* ===== verification/Plugin_Props.thy ===== *)
theory Plugin_Props
  imports Plugin_Steps
begin

text \<open>
  The properties of the plugin chain: what reaches the backend, with which sequence number,
  what comes back to the client, and how many requests of one client run at a time.
\<close>

section \<open>Sequence numbers of consecutive forwards\<close>

fun forward_all :: "env \<Rightarrow> msg list \<Rightarrow> gst \<Rightarrow> gst" where
  "forward_all e [] g = g"
| "forward_all e (m # ms) g = forward_all e ms (snd (ForwadHttp e m g))"

definition seq_mod :: nat where "seq_mod = 2147473647"

definition seq_of :: "gst \<Rightarrow> any option" where
  "seq_of g = a_storage (g_agent g) ''sequenceID''"

lemma unat_seqLimit: "unat seqLimit = seq_mod"
  by (simp add: seqLimit_def seq_mod_def)

lemma seq_next:
  assumes "unat v = (if k = 0 then 0 else Suc ((k - 1) mod seq_mod))"
  shows "unat (seq_add (seq_cas v)) = Suc (k mod seq_mod)"
proof (cases "v = seqLimit")
  case True
  then have "k \<noteq> 0" and "Suc ((k - 1) mod seq_mod) = seq_mod"
    using assms unat_seqLimit by (auto simp: seq_mod_def split: if_splits)
  then have "k mod seq_mod = 0"
    by (cases k) (auto simp: mod_Suc)
  with True show ?thesis by (simp add: seq_cas_def seq_add_def)
next
  case False
  then have ne: "unat v \<noteq> seq_mod" using unat_seqLimit by (metis word_unat_eq_iff)
  have le: "unat v \<le> seq_mod" using assms by (auto simp: seq_mod_def Suc_leI)
  then have "unat (v + 1) = Suc (unat v)" by (simp add: unat_word_ariths seq_mod_def)
  moreover have "unat v = k mod seq_mod"
  proof (cases k)
    case 0
    then show ?thesis using assms by simp
  next
    case (Suc j)
    then show ?thesis using assms ne by (simp add: mod_Suc)
  qed
  ultimately show ?thesis using False by (simp add: seq_cas_def seq_add_def)
qed

lemma http_reply_keeps:
  "http_reply e out g = (r, g') \<Longrightarrow> seq_of g' = seq_of g \<and> g_reqs g' = g_reqs g"
  by (auto simp: http_reply_def seq_of_def Let_def split: http_outcome.splits if_splits)

lemma http_send_reqs:
  "http_send e req g = (out, g') \<Longrightarrow>
     seq_of g' = seq_of g \<and> g_agent g' = g_agent g \<and> out = fst (e_svc e (length (g_reqs g)) req) \<and>
     g_reqs g' = (case out of NewReqErr _ \<Rightarrow> g_reqs g | _ \<Rightarrow> g_reqs g @ [req])"
  by (auto simp: http_send_def seq_of_def split: prod.splits http_outcome.splits)

text \<open>One forward: the counter moves on, and one request leaves if it could be built.\<close>

lemma ForwadHttp_seq:
  assumes "seq_of g = Some (AtomicUint32 v)"
  defines "sq \<equiv> seq_add (seq_cas v)"
  shows "seq_of (snd (ForwadHttp e m g)) = Some (AtomicUint32 sq)"
    and "(\<And>err. fst (e_svc e (length (g_reqs g)) (lua_request e sq m (g_agent g))) \<noteq> NewReqErr err) \<Longrightarrow>
      g_reqs (snd (ForwadHttp e m g)) = g_reqs g @ [lua_request e sq m (g_agent g)]"
proof -
  define h where "h = on_agent (agent_Set ''sequenceID'' (AtomicUint32 sq)) g"
  have req: "lua_request e sq m (g_agent h) = lua_request e sq m (g_agent g)"
    by (simp add: h_def lua_request_def agent_Set_def)
  obtain out g1 where s: "http_send e (lua_request e sq m (g_agent h)) h = (out, g1)" by fastforce
  obtain r g2 where t: "http_reply e out g1 = (r, g2)" by fastforce
  have "ForwadHttp e m g = (r, g2)"
    using assms s t
    by (simp add: ForwadHttp_def next_seq_def agent_Get_def seq_of_def h_def on_agent_def Let_def)
  moreover note http_send_reqs [OF s] http_reply_keeps [OF t]
  moreover have "seq_of h = Some (AtomicUint32 sq)" and "g_reqs h = g_reqs g"
    by (simp_all add: h_def seq_of_def agent_Set_def)
  ultimately show "seq_of (snd (ForwadHttp e m g)) = Some (AtomicUint32 sq)"
    and "(\<And>err. fst (e_svc e (length (g_reqs g)) (lua_request e sq m (g_agent g))) \<noteq> NewReqErr err) \<Longrightarrow>
      g_reqs (snd (ForwadHttp e m g)) = g_reqs g @ [lua_request e sq m (g_agent g)]"
    by (auto simp: req split: http_outcome.splits)
qed

definition seqs :: "gst \<Rightarrow> nat list" where
  "seqs g = map (\<lambda>r. unat (SequenceID (r_msg r))) (g_reqs g)"

definition always_built :: "env \<Rightarrow> bool" where
  "always_built e \<longleftrightarrow> (\<forall>n r err. fst (e_svc e n r) \<noteq> NewReqErr err)"

lemma forward_all_seqs:
  assumes "always_built e" and "seq_of g = Some (AtomicUint32 v)"
    and "unat v = (if k = 0 then 0 else Suc ((k - 1) mod seq_mod))"
  shows "seqs (forward_all e ms g) =
    seqs g @ map (\<lambda>i. Suc ((k + i) mod seq_mod)) [0..<length ms]"
  using assms
proof (induction ms arbitrary: g v k)
  case Nil
  then show ?case by simp
next
  case (Cons m ms)
  let ?sq = "seq_add (seq_cas v)" and ?g = "snd (ForwadHttp e m g)"
  have sq: "unat ?sq = Suc (k mod seq_mod)" using Cons.prems(3) by (rule seq_next)
  have "seqs ?g = seqs g @ [Suc (k mod seq_mod)]"
    using ForwadHttp_seq(2) [OF Cons.prems(2)] Cons.prems(1) sq
    by (simp add: seqs_def always_built_def lua_request_def)
  moreover have "seqs (forward_all e ms ?g) =
      seqs ?g @ map (\<lambda>i. Suc ((Suc k + i) mod seq_mod)) [0..<length ms]"
    using ForwadHttp_seq(1) [OF Cons.prems(2)] sq by (intro Cons.IH Cons.prems(1)) auto
  ultimately show ?case
    by (simp add: upt_conv_Cons del: upt_Suc flip: map_Suc_upt add: o_def)
qed

text \<open>Any forward that gets a sequence number sends one request.\<close>

lemma ForwadHttp_request:
  assumes "next_seq (g_agent g) = (Ret sq, a)" and "always_built e"
  shows "g_reqs (snd (ForwadHttp e m g)) = g_reqs g @ [lua_request e sq m a]"
proof -
  let ?g = "g\<lparr>g_agent := a\<rparr>"
  obtain out g1 where s: "http_send e (lua_request e sq m a) ?g = (out, g1)" by fastforce
  obtain r g2 where t: "http_reply e out g1 = (r, g2)" by fastforce
  have "ForwadHttp e m g = (r, g2)"
    using assms(1) s t by (simp add: ForwadHttp_def Let_def)
  with http_send_reqs [OF s] http_reply_keeps [OF t] assms(2) show ?thesis
    by (auto simp: always_built_def split: http_outcome.splits)
qed

text \<open>Past the limit the compare-and-swap never matches again, until the counter wraps.\<close>

lemma forward_all_past:
  assumes "seq_of g = Some (AtomicUint32 v)" and "seq_mod < unat v"
    and "unat v + length ms < 2 ^ 32"
  shows "seq_of (forward_all e ms g) = Some (AtomicUint32 (v + word_of_nat (length ms)))"
  using assms
proof (induction ms arbitrary: g v)
  case Nil
  then show ?case by simp
next
  case (Cons m ms)
  have "v \<noteq> seqLimit" using Cons.prems(2) unat_seqLimit by auto
  then have "seq_of (snd (ForwadHttp e m g)) = Some (AtomicUint32 (v + 1))"
    using ForwadHttp_seq(1) [OF Cons.prems(1)] by (simp add: seq_cas_def seq_add_def)
  moreover have "unat (v + 1) = Suc (unat v)"
    using Cons.prems(3) by (simp add: unat_word_ariths)
  ultimately show ?case using Cons.IH [of _ "v + 1"] Cons.prems(2,3) by (simp add: add.assoc)
qed

section \<open>A client and a backend to evaluate with\<close>

definition demo_conn :: conn where
  "demo_conn = \<lparr>c_in = [], c_end = IoEOF, c_out = [], c_room = None, c_closed = False\<rparr>"

definition demo_agent :: agent where
  "demo_agent = (agent_New demo_conn ''10.0.0.1:5000'' ''1_2_3'')
     \<lparr>a_storage := [''sequenceID'' \<mapsto> AtomicUint32 0, ''concurrent'' \<mapsto> AtomicInt32 1]\<rparr>"

definition demo_gst :: gst where
  "demo_gst = \<lparr>g_agent = demo_agent, g_met = metrics_init, g_alerts = [], g_reqs = [],
     g_clock = 0, g_jobs = []\<rparr>"

definition demo_reply :: lua_msg where
  "demo_reply = \<lparr>SequenceID = 1, ServerID = [], ConnID = [], MsgID = 7832, Bytes = b64_encode [1, 2]\<rparr>"

definition demo_env :: env where
  "demo_env = \<lparr>e_grow = next_slice_cap, e_late = False, e_ENV = ''release'', e_node_id = ''gw_1_2'',
     e_api_url = ''http://127.0.0.1:80'', e_svc = (\<lambda>n r. (Resp 200 [], 5000000)),
     e_unmarshal = (\<lambda>b. demo_reply)\<rparr>"

section \<open>Properties\<close>

text \<open>C13: the sequence numbers of an agent's requests to the backend, forwarded one after
  the other, are 1, 2, 3, ... and start again at 1 after 2147473647.\<close>

theorem forward_sequence:
  assumes "always_built e" and "seq_of g = Some (AtomicUint32 0)" and "g_reqs g = []"
  shows "map (\<lambda>r. unat (SequenceID (r_msg r))) (g_reqs (forward_all e ms g)) =
    map (\<lambda>i. Suc (i mod 2147473647)) [0..<length ms]"
  using forward_all_seqs [OF assms(1,2), of 0 ms] assms(3) by (simp add: seqs_def seq_mod_def)

theorem forward_sequence_witness:
  "map (\<lambda>r. unat (SequenceID (r_msg r))) (g_reqs (forward_all demo_env [Msg 1000 [], Msg 1001 [9]] demo_gst))
     = [1, 2]"
proof -
  have "always_built demo_env" by (simp add: always_built_def demo_env_def)
  moreover have "seq_of demo_gst = Some (AtomicUint32 0)"
    by (simp add: seq_of_def demo_gst_def demo_agent_def)
  moreover have "g_reqs demo_gst = []" by (simp add: demo_gst_def)
  ultimately show ?thesis
    using forward_sequence [of demo_env demo_gst "[Msg 1000 [], Msg 1001 [9]]"] by (simp add: upt_rec)
qed

text \<open>The compare-and-swap that resets the sequence counter and the increment are two
  atomic operations; two goroutines of one agent that interleave between them step over the
  reset value, and from there on the counter is never reset.\<close>

lemma seq_reset_race:
  assumes "k_jobs s = [(m1, JCas t1), (m2, JCas t2)]"
    and "seq_of (k_g s) = Some (AtomicUint32 (seqLimit - 1))"
    and "seq_mod + 1 + length ms < 2 ^ 32"
  shows "\<exists>t. conc_reach s t \<and> seq_of (k_g t) = Some (AtomicUint32 (seqLimit + 1)) \<and>
    seq_of (forward_all e ms (k_g t)) = Some (AtomicUint32 (seqLimit + 1 + word_of_nat (length ms)))"
proof -
  let ?set = "\<lambda>v g. on_agent (agent_Set ''sequenceID'' (AtomicUint32 v)) g"
  define g1 where "g1 = ?set (seqLimit - 1) (k_g s)"
  define g2 where "g2 = ?set (seqLimit - 1) g1"
  define g3 where "g3 = ?set seqLimit g2"
  define g4 where "g4 = ?set (seqLimit + 1) g3"
  define s1 where "s1 = s\<lparr>k_g := g1, k_jobs := [] @ (m1, JAdd t1) # [(m2, JCas t2)]\<rparr>"
  define s2 where "s2 = s1\<lparr>k_g := g2, k_jobs := [(m1, JAdd t1)] @ (m2, JAdd t2) # []\<rparr>"
  define s3 where "s3 = s2\<lparr>k_g := g3, k_jobs := [] @ (m1, JSend t1 seqLimit) # [(m2, JAdd t2)]\<rparr>"
  define s4 where "s4 = s3\<lparr>k_g := g4, k_jobs := [(m1, JSend t1 seqLimit)] @ (m2, JSend t2 (seqLimit + 1)) # []\<rparr>"
  note get = agent_Get_def agent_Set_def
  have cas: "seq_cas (seqLimit - 1) = seqLimit - 1" by (simp add: seq_cas_def)
  have "job_step e m1 (JCas t1) (k_g s) = (JAdd t1, g1)"
    using assms(2) cas by (simp add: seq_of_def get g1_def)
  then have "conc_step s s1" unfolding s1_def using assms(1) by (intro conc_step.run) auto
  moreover have "job_step e m2 (JCas t2) (k_g s1) = (JAdd t2, g2)"
    using cas by (simp add: s1_def get g1_def g2_def)
  then have "conc_step s1 s2" unfolding s2_def by (intro conc_step.run) (auto simp: s1_def)
  moreover have "job_step e m1 (JAdd t1) (k_g s2) = (JSend t1 seqLimit, g3)"
    by (simp add: s2_def get g2_def g3_def seq_add_def)
  then have "conc_step s2 s3" unfolding s3_def by (intro conc_step.run) (auto simp: s2_def)
  moreover have "job_step e m2 (JAdd t2) (k_g s3) = (JSend t2 (seqLimit + 1), g4)"
    by (simp add: s3_def get g3_def g4_def seq_add_def)
  then have "conc_step s3 s4" unfolding s4_def by (intro conc_step.run) (auto simp: s3_def)
  ultimately have "conc_reach s s4" by (meson conc_reach.here conc_reach.step)
  moreover have v: "seq_of (k_g s4) = Some (AtomicUint32 (seqLimit + 1))"
    by (simp add: s4_def g4_def seq_of_def get)
  moreover have "unat (seqLimit + 1) = seq_mod + 1" by (simp add: seqLimit_def seq_mod_def)
  ultimately show ?thesis
    using forward_all_past [OF v, of ms e] assms(3) by auto
qed

lemma seq_reset_race_witness:
  "\<exists>t. conc_reach
       \<lparr>k_g = demo_gst\<lparr>g_agent := agent_Set ''sequenceID'' (AtomicUint32 (seqLimit - 1)) demo_agent\<rparr>,
        k_jobs = [(Msg 1000 [], JCas 0), (Msg 1000 [], JCas 0)]\<rparr> t \<and>
     seq_of (k_g t) = Some (AtomicUint32 2147473648)"
proof -
  let ?g = "demo_gst\<lparr>g_agent := agent_Set ''sequenceID'' (AtomicUint32 (seqLimit - 1)) demo_agent\<rparr>"
  let ?s = "\<lparr>k_g = ?g, k_jobs = [(Msg 1000 [], JCas 0), (Msg 1000 [], JCas 0)]\<rparr>"
  have "k_jobs ?s = [(Msg 1000 [], JCas 0), (Msg 1000 [], JCas 0)]" by simp
  moreover have "seq_of (k_g ?s) = Some (AtomicUint32 (seqLimit - 1))"
    by (simp add: seq_of_def agent_Set_def)
  moreover have "seq_mod + 1 + length ([] :: msg list) < 2 ^ 32" by (simp add: seq_mod_def)
  ultimately obtain t where "conc_reach ?s t" "seq_of (k_g t) = Some (AtomicUint32 (seqLimit + 1))"
    using seq_reset_race [of ?s "Msg 1000 []" 0 "Msg 1000 []" 0 "[]"] by blast
  then show ?thesis by (auto simp: seqLimit_def)
qed

text \<open>However an agent's goroutines interleave with its read loop and with the rest of the
  gateway, at most eleven of its requests run at a time, and the counter the limiter reads
  is exactly their number.\<close>

lemma in_flight_limit:
  assumes "conc_start s" and "conc_reach s t"
  shows "in_flight t \<le> 11 \<and>
    (case a_storage (g_agent (k_g t)) ''concurrent'' of
       None \<Rightarrow> in_flight t = 0
     | Some (AtomicInt32 n) \<Rightarrow> sint n = int (in_flight t)
     | Some _ \<Rightarrow> False)"
proof -
  have "rate_inv t" using conc_reach_rate_inv [OF assms(2) rate_inv_start [OF assms(1)]] .
  then show ?thesis by (auto simp: rate_inv_def split: option.splits any.splits)
qed

definition demo_start :: conc where
  "demo_start = \<lparr>k_g = demo_gst\<lparr>g_agent := agent_New demo_conn ''10.0.0.1:5000'' ''1_2_3''\<rparr>, k_jobs = []\<rparr>"

lemma in_flight_limit_witness:
  "conc_reach demo_start (demo_start\<lparr>k_g := snd (PluginsMain demo_env (Msg 1000 []) (k_g demo_start))\<rparr>) \<and>
   in_flight (demo_start\<lparr>k_g := snd (PluginsMain demo_env (Msg 1000 []) (k_g demo_start))\<rparr>) = 1 \<and>
   in_flight (demo_start\<lparr>k_g := snd (PluginsMain demo_env (Msg 1000 []) (k_g demo_start))\<rparr>) \<le> 11"
proof -
  let ?t = "demo_start\<lparr>k_g := snd (PluginsMain demo_env (Msg 1000 []) (k_g demo_start))\<rparr>"
  have start: "conc_start demo_start"
    by (simp add: conc_start_def demo_start_def demo_gst_def agent_New_def)
  have "conc_step demo_start ?t"
    by (rule conc_step.recv [where e = demo_env and m = "Msg 1000 []"]) (rule prod.collapse [symmetric])
  then have reach: "conc_reach demo_start ?t" by (blast intro: conc_reach.intros)
  have "in_flight ?t = 1"
    by (simp add: in_flight_def demo_start_def demo_gst_def agent_New_def PluginsMain_unfold
        RateLimitMiddle_def ConcurrentMiddle_def agent_Get_def agent_Set_def rateLimit_def Let_def)
  with reach in_flight_limit [OF start reach] show ?thesis by blast
qed




text \<open>C14: a forwarded message reaches the backend with its identifier and connection, and a
  body that decodes to the bytes received; when the reply carries a message, exactly its
  frame (sequence number 0) is appended to the client's output.\<close>

theorem forward_and_reply:
  assumes "seq_of g = Some (AtomicUint32 v)"
    and "e_svc e (length (g_reqs g)) (lua_request e (seq_add (seq_cas v)) m (g_agent g)) =
      (Resp 200 body, took)"
    and "e_unmarshal e body = r" and "MsgID r \<noteq> 0" and "Bytes r = b64_encode reply"
    and "w_err (a_w (g_agent g)) = None"
  shows "\<exists>req. g_reqs (snd (ForwadHttp e m g)) = g_reqs g @ [req] \<and>
      MsgID (r_msg req) = msg_ID m \<and> ConnID (r_msg req) = a_cid (g_agent g) \<and>
      b64_decode (Bytes (r_msg req)) = (msg_Body m, False) \<and> r_url req = e_api_url e \<and>
      fst (ForwadHttp e m g) = Ret None \<and>
      w_b (a_w (g_agent (snd (ForwadHttp e m g)))) =
        w_b (a_w (g_agent g)) @ frame (MsgID r) reply 0"
proof -
  let ?sq = "seq_add (seq_cas v)" and ?a = "agent_Set ''sequenceID'' (AtomicUint32 (seq_add (seq_cas v))) (g_agent g)"
  have req: "lua_request e ?sq m ?a = lua_request e ?sq m (g_agent g)"
    by (simp add: lua_request_def agent_Set_def)
  have a: "w_err (a_w ?a) = None" "w_b (a_w ?a) = w_b (a_w (g_agent g))"
    using assms(6) by (simp_all add: agent_Set_def)
  have "ForwadHttp e m g = (Ret None, g\<lparr>g_agent := snd (agent_Write (e_grow e) (e_late e) (MsgID r) reply ?a),
      g_reqs := g_reqs g @ [lua_request e ?sq m (g_agent g)], g_clock := g_clock g + int took\<rparr>)"
    using assms req
    by (simp add: ForwadHttp_def next_seq_def agent_Get_def seq_of_def http_send_def http_reply_def
        b64_decode_encode on_agent_def Let_def)
  then show ?thesis
    using agent_Write_ok [OF a(1)] a(2)
    by (simp add: lua_request_def b64_decode_encode)
qed

theorem forward_and_reply_witness:
  "fst (ForwadHttp demo_env (Msg 6832 [7]) demo_gst) = Ret None \<and>
   w_b (a_w (g_agent (snd (ForwadHttp demo_env (Msg 6832 [7]) demo_gst)))) = frame 7832 [1, 2] 0"
proof -
  have "seq_of demo_gst = Some (AtomicUint32 0)"
    by (simp add: seq_of_def demo_gst_def demo_agent_def)
  moreover have "e_svc demo_env (length (g_reqs demo_gst))
      (lua_request demo_env (seq_add (seq_cas 0)) (Msg 6832 [7]) (g_agent demo_gst)) = (Resp 200 [], 5000000)"
    by (simp add: demo_env_def)
  moreover have "e_unmarshal demo_env [] = demo_reply" by (simp add: demo_env_def)
  moreover have "MsgID demo_reply \<noteq> 0" "Bytes demo_reply = b64_encode [1, 2]"
    by (simp_all add: demo_reply_def)
  moreover have "w_err (a_w (g_agent demo_gst)) = None" "w_b (a_w (g_agent demo_gst)) = []"
    by (simp_all add: demo_gst_def demo_agent_def agent_New_def writer_New_def)
  ultimately show ?thesis
    using forward_and_reply [of demo_gst 0 demo_env "Msg 6832 [7]" "[]" 5000000 demo_reply "[1, 2]"]
    by (auto simp: demo_reply_def)
qed

end
