(* ===== verification/System_Props.thy ===== *)
theory System_Props
  imports System_Trace Plugin_Props
begin

text \<open>
  The properties of the gateway process as a whole: its counters and its table in every
  reachable state, the notifications of disconnected clients, the limit on running requests,
  shutdown, and what the HTTP operations do to a client.
\<close>

section \<open>Rate limit and statistics in every reachable state\<close>

lemma new_slot_view:
  "conc_start (conc_view (length (y_slots s)) (accept_add now rnd c address s))"
  by (auto simp: conc_start_def conc_view_def conc_of_def focus_def accept_add_def on_slot_agent_def
      on_slot_def agent_New_def set_conn_def Let_def nth_append split: prod.splits go.splits option.splits)

lemma sys_step_length:
  assumes "sys_step err_text e s l t"
  shows "length (y_slots t) = length (y_slots s) \<or>
    (\<exists>now rnd c address. t = accept_add now rnd c address s \<and> length (y_slots t) = Suc (length (y_slots s)))"
  using assms
proof (induction rule: sys_step.induct)
  case (add s now rnd c address)
  have "length (y_slots (accept_add now rnd c address s)) = Suc (length (y_slots s))"
    by (auto simp: accept_add_def on_slot_agent_def on_slot_def Let_def
        split: prod.splits go.splits option.splits)
  then show ?case by blast
next
  case (fin i s pc)
  then show ?case
    by (cases pc) (auto simp: fin_count_def fin_remove_def fin_close_def fin_check_def
        fin_forward_def Let_def split: prod.splits)
next
  case (http path r s resp t)
  then show ?case by (auto simp: http_start_def split: prod.splits)
next
  case (act s ts a as ts' pre new t)
  then show ?case
    by (cases a) (auto split: option.splits if_splits go.splits)
next
  case (close s)
  then show ?case by (simp add: sys_Close_def gateway_Close_def foldl_close)
qed (auto simp: accept_run_def)

lemma sys_run_rate:
  "sys_run err_text e ls s \<Longrightarrow> i < length (y_slots s) \<Longrightarrow> rate_inv (conc_view i s)"
proof (induction rule: sys_run.induct)
  case init
  then show ?case by (simp add: sys_init_def)
next
  case (step ls s l t)
  show ?case
  proof (cases "i < length (y_slots s)")
    case True
    with step show ?thesis using sys_step_conc conc_step_rate_inv by blast
  next
    case False
    with step sys_step_length [OF step(3)] obtain now rnd c address where
      "t = accept_add now rnd c address s" "i = length (y_slots s)" by auto
    then show ?thesis using new_slot_view rate_inv_start by blast
  qed
qed

subsection \<open>Statistics never panic\<close>

lemma metrics_ok_more [simp]:
  "metrics_ok (x\<lparr>CountPublicHTTPRequest := n\<rparr>) = metrics_ok x"
  "metrics_ok (count_conn d x) = metrics_ok x"
  by (simp_all add: metrics_ok_def count_conn_def)

lemma metrics_ok_count:
  "metrics_ok x \<Longrightarrow> metrics_ok (x\<lparr>CountPublicTCPRequest := CountPublicTCPRequest x + 1\<rparr>)"
  "metrics_ok x \<Longrightarrow> metrics_ok (http_enter x)"
  by (auto simp: metrics_ok_def http_enter_def)

lemma metrics_ok_In:
  assumes "metrics_ok x"
  shows "\<exists>pp. proto_In k v (P99PublicHTTPRequestLatency x) = Ret pp \<and>
      metrics_ok (x\<lparr>P99PublicHTTPRequestLatency := pp\<rparr>)"
    and "\<exists>pp. proto_In k v (P99PrivateHTTPRequestLatency x) = Ret pp \<and>
      metrics_ok (x\<lparr>P99PrivateHTTPRequestLatency := pp\<rparr>)"
proof -
  obtain a b where "proto_rep a (P99PublicHTTPRequestLatency x)" "proto_rep b (P99PrivateHTTPRequestLatency x)"
    using assms by (auto simp: metrics_ok_def)
  from proto_rep_In [OF this(1), of k v] proto_rep_In [OF this(2), of k v] assms
  show "\<exists>pp. proto_In k v (P99PublicHTTPRequestLatency x) = Ret pp \<and>
      metrics_ok (x\<lparr>P99PublicHTTPRequestLatency := pp\<rparr>)"
    and "\<exists>pp. proto_In k v (P99PrivateHTTPRequestLatency x) = Ret pp \<and>
      metrics_ok (x\<lparr>P99PrivateHTTPRequestLatency := pp\<rparr>)"
    unfolding metrics_ok_def by fastforce+
qed

lemma log_done_ok:
  assumes "metrics_ok (g_met g)" and "log_done m st err g = (r, g')"
  shows "r = Ret err" and "metrics_ok (g_met g')"
proof -
  let ?k = "dec (unat (msg_ID m))" and ?v = "(g_clock g - st) div 1000000"
  obtain pp where "proto_In ?k ?v (P99PublicHTTPRequestLatency (g_met g)) = Ret pp"
    "metrics_ok ((g_met g)\<lparr>P99PublicHTTPRequestLatency := pp\<rparr>)"
    using metrics_ok_In(1) [OF assms(1)] by blast
  with assms(2) show "r = Ret err" and "metrics_ok (g_met g')"
    by (auto simp: log_done_def Let_def)
qed

lemma met_keep:
  "http_send e req g = (out, g') \<Longrightarrow> g_met g' = g_met g"
  "http_reply e out g = (r, g') \<Longrightarrow> g_met g' = g_met g"
  "g_met (rate_end g) = g_met g" "g_met (job_alert m x g) = g_met g"
  "g_met (read_exit err_text y g) = g_met g" "g_met (write_exit err_text z g) = g_met g"
  by (auto simp: http_send_def http_reply_def rate_end_def job_alert_def read_exit_def write_exit_def
      AlertLowFrequency_def Let_def
      split: prod.splits http_outcome.splits option.splits any.splits go.splits if_splits loop_exit.split)

lemma job_step_met:
  assumes "job_step e m pc g = (pc', g')" and "metrics_ok (g_met g)"
  shows "metrics_ok (g_met g')"
  using assms(1)
proof (cases pc)
  case JNew
  with assms show ?thesis by (auto simp: Let_def split: if_splits prod.splits)
next
  case (JSend st sq)
  with assms show ?thesis by (auto dest: met_keep(1) split: prod.splits)
next
  case (JReply st out)
  with assms show ?thesis by (auto dest: met_keep(2) split: prod.splits go.splits)
next
  case (JLog st err)
  with assms show ?thesis by (auto dest: log_done_ok(2) split: prod.splits)
qed (use assms(2) in \<open>auto simp: met_keep(3,4) split: option.splits any.splits\<close>)

lemma PluginsMain_met:
  assumes "PluginsMain e m g = (r, g')" and "metrics_ok (g_met g)"
  shows "metrics_ok (g_met g')"
  using assms metrics_ok_count(1) [OF assms(2)]
  by (auto simp: PluginsMain_unfold RateLimitMiddle_def ConcurrentMiddle_def Let_def
      split: option.splits any.splits if_splits)

lemma loc_step_met:
  "loc_step err_text e l l' \<Longrightarrow> metrics_ok (g_met (l_g l)) \<Longrightarrow> metrics_ok (g_met (l_g l'))"
  by (induction rule: loc_step.induct) (auto dest: PluginsMain_met job_step_met simp: met_keep)

lemma ForwadHttp_met: "ForwadHttp e m g = (r, g') \<Longrightarrow> g_met g' = g_met g"
  by (auto simp: ForwadHttp_def Let_def dest!: met_keep(1,2) split: go.splits prod.splits)

lemma http_leave_ok:
  assumes "metrics_ok x"
  shows "\<exists>y al. http_leave ip path start now x = Ret (y, al) \<and> metrics_ok y"
proof -
  obtain pp where "proto_In path (quot (now - start) 1000000) (P99PrivateHTTPRequestLatency x) = Ret pp"
    "metrics_ok (x\<lparr>P99PrivateHTTPRequestLatency := pp\<rparr>)"
    using metrics_ok_In(2) [OF assms] by blast
  then show ?thesis by (simp add: http_leave_def Let_def)
qed

lemma collect_ok:
  assumes "metrics_ok m"
  shows "\<exists>m'. collect read 10 m = Ret m' \<and> metrics_ok m'"
  using collect_facts [OF assms, of 10 read] by auto

lemma y_met_slots [simp]:
  "y_met (set_fin i pc s) = y_met s" "y_met (on_slot_agent i f s) = y_met s"
  "y_met (put_back i l s) = g_met (l_g l)" "g_met (l_g (focus i s)) = y_met s"
  by (simp_all add: set_fin_def on_slot_agent_def on_slot_def put_back_def focus_def Let_def)

lemma foldl_close_met: "y_met (foldl (\<lambda>s i. on_slot_agent i agent_Close s) s is) = y_met s"
  by (induction "is" arbitrary: s) simp_all

lemma fin_forward_met: "y_met (fin_forward e i s) = y_met s"
proof -
  obtain r g where f: "ForwadHttp e (Msg 5006 []) (l_g (focus i s)) = (r, g)" by fastforce
  with ForwadHttp_met [OF f] show ?thesis by (simp add: fin_forward_def Let_def split: go.split)
qed

lemma act_step_met:
  assumes "act_step e a s = (pre, new, t)" and "metrics_ok (y_met s)"
  shows "metrics_ok (y_met t)"
proof (cases a)
  case (ALog path start)
  with http_leave_ok [OF assms(2), of "''''" path start "y_clock s"] assms(1) show ?thesis by auto
qed (use assms in \<open>auto split: option.splits if_splits\<close>)

lemma sys_step_met:
  assumes "sys_step err_text e s l t" and "metrics_ok (y_met s)"
  shows "metrics_ok (y_met t)"
  using assms
proof (induction rule: sys_step.induct)
  case (add s now rnd c address)
  then show ?case by (auto simp: accept_add_def Let_def split: prod.splits go.splits option.splits)
next
  case (local i s l)
  then show ?case using loc_step_met [OF local(3)] by simp
next
  case (fin i s pc)
  then show ?case
    by (cases pc) (simp_all add: fin_count_def fin_remove_def fin_close_def fin_check_def fin_forward_met)
next
  case (http path r s resp t)
  then show ?case by (auto simp: http_start_def metrics_ok_count split: prod.splits)
next
  case (act s ts a as ts' pre new t)
  then show ?case using act_step_met by simp
next
  case (close s)
  then show ?case by (simp add: sys_Close_def gateway_Close_def foldl_close_met)
next
  case (collect read s m)
  then show ?case using collect_ok [OF collect(2), of read] by simp
qed (simp_all add: accept_run_def)

lemma sys_run_met: "sys_run err_text e ls s \<Longrightarrow> metrics_ok (y_met s)"
proof (induction rule: sys_run.induct)
  case init
  show ?case using metrics_ok_init by (simp add: sys_init_def)
qed (rule sys_step_met)

section \<open>A concrete run\<close>

text \<open>One client connects, is disabled and closed through the HTTP interface, and finalized.\<close>

definition demo_conn1 :: conn where
  "demo_conn1 = \<lparr>c_in = [], c_end = IoEOF, c_out = [], c_room = None, c_closed = False\<rparr>"

definition demo_s2 :: sys where
  "demo_s2 = accept_run 0 (accept_add 5 7 demo_conn1 ''9.9.9.9:1'' sys_init)"

lemma demo_uid: "GenerateAgentUID 5 7 (gateway_New :: nat gateway) =
    (''1_5_7'', \<lparr>gw_agents = Some [], gw_uidBase = 1\<rparr>)"
  by (simp add: GenerateAgentUID_def gateway_New_def uidLimit_def) code_simp

lemma demo_good: "good_key ''1_5_7''"
  by code_simp

lemma demo_s2_eq:
  "demo_s2 = sys_init\<lparr>y_gw := \<lparr>gw_agents = Some [(''1_5_7'', 0)], gw_uidBase = 1\<rparr>,
     y_slots := [\<lparr>sl_agent = agent_New demo_conn1 ''9.9.9.9:1'' ''1_5_7'', sl_jobs = [], sl_run = [],
        sl_r = RRead, sl_w = WSelect, sl_fin = FWait\<rparr>],
     y_met := count_conn 1 metrics_init\<rparr>"
  using demo_good
  by (simp add: demo_s2_def accept_add_def demo_uid sys_init_def AddAgent_def good_key_def entries_def
      accept_run_def set_fin_def on_slot_def)

lemma sys_run_more:
  "sys_run err_text e ls s \<Longrightarrow> \<not> y_crashed s \<Longrightarrow> sys_step err_text e s l t \<Longrightarrow> ks = ls @ [l] \<Longrightarrow>
     sys_run err_text e ks t"
  by (simp add: sys_run.step)

lemma demo_run2: "sys_run err_text e [EvAdd 0, EvRun 0] demo_s2"
proof -
  let ?s1 = "accept_add 5 7 demo_conn1 ''9.9.9.9:1'' sys_init"
  have "sys_step err_text e sys_init (EvAdd (length (y_slots sys_init))) ?s1"
    by (rule sys_step.add) (simp add: sys_init_def)
  then have r: "sys_run err_text e [EvAdd 0] ?s1"
    by (intro sys_run_more [OF sys_run.init]) (simp_all add: sys_init_def)
  have n: "y_accept ?s1 = Some 0" "\<not> y_crashed ?s1"
    using demo_good
    by (simp_all add: accept_add_def demo_uid sys_init_def AddAgent_def good_key_def entries_def)
  have "sys_step err_text e ?s1 (EvRun 0) demo_s2"
    unfolding demo_s2_def by (rule sys_step.start [OF n(1)])
  then show ?thesis by (rule sys_run_more [OF r n(2)]) simp
qed

definition demo_s3 :: sys where
  "demo_s3 = snd (http_start ''/agent/v1/close'' (PostClose (Inr ''1_5_7'')) demo_s2)"

definition demo_s4 :: sys where
  "demo_s4 = (on_slot_agent 0 agent_Disable demo_s3)\<lparr>y_threads := [[AClose 0, ALog ''/agent/v1/close'' 0]]\<rparr>"

definition demo_s5 :: sys where
  "demo_s5 = (on_slot_agent 0 agent_Close demo_s4)\<lparr>y_threads := [[ALog ''/agent/v1/close'' 0]]\<rparr>"

definition demo_s9 :: sys where
  "demo_s9 = fin_check 0 (fin_close 0 (fin_remove 0 (fin_count 0 demo_s5)))"

definition demo_kick :: "event list" where
  "demo_kick = [EvAdd 0, EvRun 0, EvHttp (PostClose (Inr ''1_5_7'')) ok_resp, EvAct (ADisable 0),
     EvAct (AClose 0), EvFin 0 FWait, EvFin 0 FRemove, EvFin 0 FClose, EvFin 0 FCheck]"

lemma demo_s3_eq:
  "http_start ''/agent/v1/close'' (PostClose (Inr ''1_5_7'')) demo_s2 = (ok_resp, demo_s3)"
  "y_threads demo_s3 = [[ADisable 0, AClose 0, ALog ''/agent/v1/close'' 0]]"
  "y_slots demo_s3 = y_slots demo_s2" "\<not> y_crashed demo_s3"
  using demo_good
  by (simp_all add: demo_s3_def demo_s2_eq http_start_def serve_def handle_close_def GetAgent_def
      good_key_def entries_def sys_init_def)

lemma demo_run5: "sys_run err_text e (take 5 demo_kick) demo_s5"
proof -
  have "sys_step err_text e demo_s2 (EvHttp (PostClose (Inr ''1_5_7'')) ok_resp) demo_s3"
    by (rule sys_step.http [OF demo_s3_eq(1)])
  then have 3: "sys_run err_text e (take 3 demo_kick) demo_s3"
    by (rule sys_run_more [OF demo_run2, rotated])
      (simp_all add: demo_kick_def demo_s2_eq sys_init_def)
  have "sys_step err_text e demo_s3 (EvAct (ADisable 0)) demo_s4"
    unfolding demo_s4_def
    using sys_step.act [of demo_s3 "[]" "ADisable 0" "[AClose 0, ALog ''/agent/v1/close'' 0]" "[]" e]
      demo_s3_eq by fastforce
  then have 4: "sys_run err_text e (take 4 demo_kick) demo_s4"
    using demo_s3_eq(4) by (intro sys_run_more [OF 3]) (simp_all add: demo_kick_def)
  have "sys_step err_text e demo_s4 (EvAct (AClose 0)) demo_s5"
    unfolding demo_s5_def
    using sys_step.act [of demo_s4 "[]" "AClose 0" "[ALog ''/agent/v1/close'' 0]" "[]" e]
    by (fastforce simp: demo_s4_def)
  then show ?thesis
    using demo_s3_eq(4)
    by (intro sys_run_more [OF 4]) (simp_all add: demo_kick_def demo_s4_def on_slot_agent_def on_slot_def)
qed

lemma crashed_keep [simp]:
  "y_crashed (set_fin i pc s) = y_crashed s" "y_crashed (on_slot_agent i f s) = y_crashed s"
  by (simp_all add: set_fin_def on_slot_agent_def on_slot_def)

lemma fin_at_keep [simp]:
  "i < length (y_slots s) \<Longrightarrow> sl_fin (y_slots (set_fin i pc s) ! i) = pc"
  "i < length (y_slots s) \<Longrightarrow> sl_fin (y_slots (on_slot_agent j f s) ! i) = sl_fin (y_slots s ! i)"
  by (simp add: set_fin_def on_slot_def)
    (cases "i = j"; simp add: on_slot_agent_def on_slot_def)

lemma demo_run9: "sys_run err_text e demo_kick demo_s9"
proof -
  have l: "0 < length (y_slots demo_s5)" "\<not> y_crashed demo_s5"
    and f: "sl_fin (y_slots demo_s5 ! 0) = FWait" and d: "a_done (agent_at demo_s5 0)"
    using demo_s3_eq(3,4)
    by (simp_all add: demo_s5_def demo_s4_def demo_s2_eq on_slot_agent_def on_slot_def agent_at_def)
  have step: "sys_run err_text e (ks @ [EvFin 0 pc]) (fin_step e pc 0 s)"
    if "sys_run err_text e ks s" "0 < length (y_slots s)" "\<not> y_crashed s" "sl_fin (y_slots s ! 0) = pc"
      "pc \<noteq> FNone" "pc \<noteq> FDone" "pc = FWait \<Longrightarrow> a_done (agent_at s 0)" for ks s pc
    using that by (intro sys_run.step [OF that(1)] sys_step.fin) (simp_all add: agent_at_def)
  have "sys_run err_text e ((((take 5 demo_kick @ [EvFin 0 FWait]) @ [EvFin 0 FRemove]) @
      [EvFin 0 FClose]) @ [EvFin 0 FCheck]) (fin_step e FCheck 0 (fin_step e FClose 0
        (fin_step e FRemove 0 (fin_step e FWait 0 demo_s5))))"
    using l f d
    by (intro step demo_run5) (simp_all add: fin_count_def fin_remove_def fin_close_def)
  then show ?thesis by (simp add: demo_kick_def demo_s9_def)
qed

lemma demo_s9_settled:
  "y_slots demo_s9 \<noteq> []" "\<forall>sl \<in> set (y_slots demo_s9). sl_fin sl = FNone \<or> sl_fin sl = FDone"
  "y_accept demo_s9 = None"
  using demo_s3_eq(3)
  by (simp_all add: demo_s9_def fin_check_def fin_close_def fin_remove_def fin_count_def set_fin_def
      on_slot_agent_def on_slot_def demo_s5_def demo_s4_def demo_s2_eq demo_s3_def http_start_def
      serve_def handle_close_def sys_init_def GetAgent_def case_prod_beta)

lemma disabled_check:
  assumes "sys_step err_text e s (EvFin i FCheck) t" and "a_disable (agent_at s i)"
  shows "fins t = (fins s)[i := FDone]"
  using assms by (auto elim!: sys_step.cases simp: fin_check_def fins_set_fin agent_at_def)

lemma act_in_threads:
  assumes "sys_step err_text e s (EvAct a) t"
  shows "\<exists>th \<in> set (y_threads s). a \<in> set th"
  using assms by (auto elim!: sys_step.cases)

definition silenced :: "nat \<Rightarrow> sys \<Rightarrow> bool" where
  "silenced i s \<longleftrightarrow> i < length (y_slots s) \<and> a_disable (agent_at s i) \<and> fins s ! i \<noteq> FForward"

lemma silenced_step:
  assumes "sys_step err_text e s l t" and "sys_inv s" and "silenced i s"
  shows "silenced i t \<and> l \<noteq> EvFin i FForward"
proof -
  have i: "i < length (y_slots s)" and d: "a_disable (agent_at s i)" and f: "fins s ! i \<noteq> FForward"
    using assms(3) unfolding silenced_def by blast+
  note st = sys_step_fins [OF assms(1,2)]
  have ne: "l \<noteq> EvFin i FForward" using st f by (auto simp: fins_step_def)
  have "fins t ! i \<noteq> FForward"
  proof (cases "l = EvFin i FCheck")
    case True
    then show ?thesis using disabled_check assms(1) d i by simp
  next
    case False
    then show ?thesis using st f i ne
      by (auto simp: fins_step_def nth_append nth_list_update split: event.splits if_splits
          elim: fpc_next.cases)
  qed
  with sys_step_disable [OF assms(1) i] d ne show ?thesis by (simp add: silenced_def)
qed

lemma silenced_from:
  assumes "sys_run err_text e ls s"
  shows "ls = ls1 @ EvAct (ADisable i) # ls2 \<Longrightarrow> EvFin i FCheck \<notin> set ls1 \<Longrightarrow>
    silenced i s \<and> EvFin i FForward \<notin> set ls"
  using assms
proof (induction arbitrary: ls2 rule: sys_run.induct)
  case init
  then show ?case by simp
next
  case (step ls s l t)
  show ?case
  proof (cases ls2 rule: rev_cases)
    case Nil
    with step have ls: "ls = ls1" "l = EvAct (ADisable i)" by simp_all
    have "act_ok (length (y_slots s)) (ADisable i)"
      using act_in_threads step(3) ls sys_run_threads [OF step(1)]
      unfolding threads_ok_def by blast
    then have i: "i < length (y_slots s)" by simp
    have trace: "fin_trace_ok (Some (fins s ! i)) (fin_trace i ls)"
      using sys_run_fin_trace [OF step(1), of i] i by (simp add: pos_def)
    have "FCheck \<notin> set (fin_trace i ls)" using step.prems ls fin_trace_in by blast
    with trace have f: "fins s ! i \<noteq> FForward" "FForward \<notin> set (fin_trace i ls)"
      by (auto simp: fin_trace_ok_def split: fpc.splits)
    have "fins t = fins s" using sys_step_fins [OF step(3) sys_run_inv [OF step(1)]] ls
      by (simp add: fins_step_def)
    then have "silenced i t"
      using sys_step_disable [OF step(3) i] ls f by (simp add: silenced_def)
    then show ?thesis using f ls fin_trace_in [of i FForward ls] by auto
  next
    case (snoc ls3 l')
    with step have "ls = ls1 @ EvAct (ADisable i) # ls3" "l' = l" by simp_all
    with step.IH step.prems(2) have "silenced i s" "EvFin i FForward \<notin> set ls" by blast+
    with silenced_step [OF step(3) sys_run_inv [OF step(1)]] show ?thesis by auto
  qed
qed

section \<open>Properties\<close>

text \<open>C4: in every reachable state the connection counter is the number of clients that were
  accepted and whose finalizer has not started: none is counted twice or forgotten, whatever
  the interleaving of accepts, disconnects, kicks, HTTP calls, collections and shutdown.\<close>

theorem connection_count:
  assumes "sys_run err_text e ls s"
  shows "CountConnection (y_met s) = int (length (filter (\<lambda>sl. sl_fin sl = FWait) (y_slots s)))"
proof -
  have "CountConnection (y_met s) = waiting (slot_ids s)"
    using sys_run_inv [OF assms] by (simp add: sys_inv_def)
  then show ?thesis by (simp add: waiting_def slot_ids_def filter_map o_def)
qed

theorem connection_count_witness:
  "CountConnection (y_met demo_s2) = 1"
  using connection_count [OF demo_run2] by (simp add: demo_s2_eq)

text \<open>C5: in every reachable state a lookup finds only agents that are registered under exactly
  that identifier and not yet removed by their finalizer, and while the gateway is open it
  finds every running one.\<close>

theorem lookup_finds_running:
  assumes "sys_run err_text e ls s"
  shows "(\<forall>k i. GetAgent k (y_gw s) = Some i \<longrightarrow>
      i < length (y_slots s) \<and> a_cid (agent_at s i) = k \<and>
      (sl_fin (y_slots s ! i) = FWait \<or> sl_fin (y_slots s ! i) = FRemove \<or> y_accept s = Some i)) \<and>
    (\<forall>i < length (y_slots s). gw_agents (y_gw s) \<noteq> None \<and> sl_fin (y_slots s ! i) = FWait \<longrightarrow>
      GetAgent (a_cid (agent_at s i)) (y_gw s) = Some i)"
proof -
  have inv: "reg_ok (slot_ids s) (y_accept s) (y_gw s)"
    using sys_run_inv [OF assms] by (simp add: sys_inv_def)
  have "GetAgent k (y_gw s) = Some i \<Longrightarrow>
      i < length (y_slots s) \<and> a_cid (agent_at s i) = k \<and>
      (sl_fin (y_slots s ! i) = FWait \<or> sl_fin (y_slots s ! i) = FRemove \<or> y_accept s = Some i)" for k i
    using reg_okD(2) [OF inv, of k i]
    by (auto simp: GetAgent_def live_def agent_at_def split: if_splits)
  moreover have "GetAgent (a_cid (agent_at s i)) (y_gw s) = Some i"
    if "i < length (y_slots s)" "gw_agents (y_gw s) \<noteq> None" "sl_fin (y_slots s ! i) = FWait" for i
    using reg_okD(3) [OF inv that(2), of i] reg_okD(4) [OF inv, of i] that(1,3)
    by (simp add: live_def agent_at_def GetAgent_good)
  ultimately show ?thesis by blast
qed

theorem lookup_finds_running_witness:
  "GetAgent ''1_5_7'' (y_gw demo_s2) = Some 0 \<and> sl_fin (y_slots demo_s2 ! 0) = FWait"
proof -
  have "a_cid (agent_at demo_s2 0) = ''1_5_7''" "length (y_slots demo_s2) = 1"
    "gw_agents (y_gw demo_s2) \<noteq> None" "sl_fin (y_slots demo_s2 ! 0) = FWait"
    by (simp_all add: demo_s2_eq agent_at_def agent_New_def)
  with conjunct2 [OF lookup_finds_running [OF demo_run2]] show ?thesis by force
qed





text \<open>C1: a client that was kicked is not reported as disconnected: if an agent is disabled
  before its finalizer checks, the notification 5006 is never sent for it, however the kick,
  the client's own hang-up and the finalizer interleave.\<close>

theorem kicked_not_notified:
  assumes "sys_run err_text e ls s" and "ls = ls1 @ EvAct (ADisable i) # ls2"
    and "EvFin i FCheck \<notin> set ls1"
  shows "EvFin i FForward \<notin> set ls"
  using silenced_from [OF assms(1,2,3)] by blast

theorem kicked_not_notified_witness:
  "EvFin 0 FForward \<notin> set demo_kick"
proof -
  have "demo_kick = take 3 demo_kick @ EvAct (ADisable 0) # drop 4 demo_kick"
    and "EvFin 0 FCheck \<notin> set (take 3 demo_kick)"
    by (simp_all add: demo_kick_def)
  from kicked_not_notified [OF demo_run9 this] show ?thesis .
qed

text \<open>C8: in the whole process, at any time at most eleven requests of one client are being
  forwarded or about to be, however its read loop, its request goroutines, the HTTP handlers
  and other clients interleave.\<close>

theorem system_rate_limit:
  assumes "sys_run err_text e ls s" and "i < length (y_slots s)"
  shows "in_flight (conc_view i s) \<le> 11"
  using sys_run_rate [OF assms]
  by (auto simp: rate_inv_def split: option.splits any.splits)

theorem system_rate_limit_witness:
  "in_flight (conc_view 0 demo_s2) = 0 \<and> in_flight (conc_view 0 demo_s2) \<le> 11"
proof -
  have "0 < length (y_slots demo_s2)" by (simp add: demo_s2_eq)
  from system_rate_limit [OF demo_run2 this] show ?thesis
    by (simp add: in_flight_def conc_view_def conc_of_def focus_def demo_s2_eq)
qed

text \<open>C17: the statistics never panic: in every reachable state the periodic collection succeeds,
  and so does recording the latency of a forwarded message or of an HTTP call.\<close>

theorem statistics_never_panic:
  assumes "sys_run err_text e ls s"
  shows "(\<exists>m. collect read 10 (y_met s) = Ret m) \<and>
    (\<exists>m al. http_leave ip path start now (y_met s) = Ret (m, al)) \<and>
    (\<exists>g. log_done msg0 start err (l_g (focus i s)) = (Ret err, g))"
proof -
  have ok: "metrics_ok (y_met s)" by (rule sys_run_met [OF assms])
  moreover obtain r g where l: "log_done msg0 start err (l_g (focus i s)) = (r, g)" by fastforce
  moreover have "r = Ret err" using log_done_ok(1) [OF _ l] ok by simp
  ultimately show ?thesis using collect_ok [OF ok] http_leave_ok [OF ok] by blast
qed

theorem statistics_never_panic_witness:
  "\<exists>m. collect (\<lambda>_. KindBad) 10 (y_met demo_s9) = Ret m"
  using statistics_never_panic [OF demo_run9, of "\<lambda>_. KindBad"] by blast

text \<open>C24: closing the gateway cancels every running agent, and from then on no lookup finds
  one, so that every client's finalizer runs and no HTTP call reaches a client any more.\<close>

theorem close_cancels_all:
  assumes "sys_run err_text e ls s" and "gw_agents (y_gw s) \<noteq> None"
    and "i < length (y_slots s)" and "sl_fin (y_slots s ! i) = FWait"
  shows "a_done (agent_at (sys_Close s) i) \<and> GetAgent k (y_gw (sys_Close s)) = None \<and>
    sys_step err_text e (sys_Close s) (EvFin i FWait) (fin_count i (sys_Close s))"
proof -
  have inv: "reg_ok (slot_ids s) (y_accept s) (y_gw s)"
    using sys_run_inv [OF assms(1)] by (simp add: sys_inv_def)
  have "map_of (entries (y_gw s)) (fst (slot_ids s ! i)) = Some i"
    using reg_okD(3) [OF inv assms(2), of i] assms(3,4) by (simp add: live_def)
  then have "i \<in> set (map snd (entries (y_gw s)))" by (force dest: map_of_SomeD)
  then have done1: "a_done (agent_at (sys_Close s) i)"
    using assms(3) by (simp add: sys_Close_def gateway_Close_def foldl_close)
  have "fins (sys_Close s) = fins s"
    using fins_keep [OF foldl_close_keep] by (simp add: sys_Close_def gateway_Close_def)
  then have "length (y_slots (sys_Close s)) = length (y_slots s)" "fins (sys_Close s) ! i = FWait"
    using length_fins assms(3,4) by (metis, simp)
  then have fin: "i < length (y_slots (sys_Close s))" "sl_fin (y_slots (sys_Close s) ! i) = FWait"
    using assms(3) by simp_all
  have "sys_step err_text e (sys_Close s) (EvFin i FWait) (fin_step e FWait i (sys_Close s))"
    using fin done1 by (intro sys_step.fin) (simp_all add: agent_at_def)
  with done1 show ?thesis
    by (simp add: sys_Close_def gateway_Close_def GetAgent_def entries_def)
qed

theorem close_cancels_all_witness:
  "a_done (agent_at (sys_Close demo_s2) 0) \<and> GetAgent ''1_5_7'' (y_gw (sys_Close demo_s2)) = None"
proof -
  have "gw_agents (y_gw demo_s2) \<noteq> None" "0 < length (y_slots demo_s2)"
    "sl_fin (y_slots demo_s2 ! 0) = FWait"
    by (simp_all add: demo_s2_eq)
  from close_cancels_all [OF demo_run2 this] show ?thesis by blast
qed

text \<open>The notification of a disconnect is one request to the backend with message
  identifier 5006, an empty body, and the client's own identifier and address.\<close>

lemma notification_request:
  assumes "always_built e"
    and "\<forall>x. a_storage (agent_at s i) ''sequenceID'' = Some x \<longrightarrow> (\<exists>v. x = AtomicUint32 v)"
  shows "\<exists>r. y_reqs (fin_forward e i s) = y_reqs s @ [r] \<and> MsgID (r_msg r) = 5006 \<and>
    Bytes (r_msg r) = '''' \<and> ConnID (r_msg r) = a_cid (agent_at s i) \<and>
    r_real_ip r = a_address (agent_at s i)"
proof -
  let ?a = "agent_at s i" and ?l = "focus i s"
  have "agent_Get ''sequenceID'' ?a = None \<or> (\<exists>v. agent_Get ''sequenceID'' ?a = Some (AtomicUint32 v))"
    using assms(2) by (cases "a_storage ?a ''sequenceID''") (auto simp: agent_Get_def)
  then obtain sq b where ns: "next_seq (g_agent (l_g ?l)) = (Ret sq, b)"
    and b: "a_cid b = a_cid ?a" "a_address b = a_address ?a"
    by (auto simp: next_seq_def agent_Set_def Let_def)
  obtain r g where f: "ForwadHttp e (Msg 5006 []) (l_g ?l) = (r, g)" by fastforce
  have "g_reqs g = y_reqs s @ [lua_request e sq (Msg 5006 []) b]"
    using ForwadHttp_request [OF ns assms(1), of "Msg 5006 []"] f
    by (simp add: focus_def Let_def)
  moreover have "y_reqs (fin_forward e i s) = g_reqs g"
    using f by (simp add: fin_forward_def set_fin_def on_slot_def put_back_def Let_def split: go.split)
  ultimately show ?thesis using b by (simp add: lua_request_def Msg_def)
qed

lemma notification_request_witness:
  "\<exists>r. y_reqs (fin_forward demo_env 0 demo_s2) = [r] \<and> MsgID (r_msg r) = 5006 \<and>
     ConnID (r_msg r) = ''1_5_7'' \<and> r_real_ip r = ''9.9.9.9:1''"
proof -
  have "always_built demo_env" by (simp add: always_built_def demo_env_def)
  moreover have "\<forall>x. a_storage (agent_at demo_s2 0) ''sequenceID'' = Some x \<longrightarrow> (\<exists>v. x = AtomicUint32 v)"
    by (simp add: demo_s2_eq agent_at_def agent_New_def)
  moreover have "y_reqs demo_s2 = []" "a_cid (agent_at demo_s2 0) = ''1_5_7''"
    "a_address (agent_at demo_s2 0) = ''9.9.9.9:1''"
    by (simp_all add: demo_s2_eq agent_at_def agent_New_def sys_init_def)
  ultimately show ?thesis
    using notification_request [of demo_env demo_s2 0] by auto
qed



text \<open>A client can forge its own disconnect notification: the hooks let a frame with
  identifier 5006 through, the read loop hands over exactly the message the finalizer forwards,
  and forwarding it sends the backend exactly the finalizer's request.\<close>

lemma forged_disconnect:
  assumes "pending c = frame 5006 [] 0 @ suf"
  shows "(\<exists>c'. read_frame c = Frame (Msg 5006 []) c' \<and> pending c' = suf) \<and>
    g_reqs (snd (ForwadHttp e (Msg 5006 []) (l_g (focus i s)))) = y_reqs (fin_forward e i s)"
proof
  have "parse_frame (pending c) (fault c) = PFrame (Msg 5006 []) suf"
    using parse_frame_frame [of "Msg 5006 []" 0 suf "fault c"] assms
    by (simp add: msg_frame_def valid_msg_def Msg_def minID_def maxID_def)
  with read_frame_parse(1) [of c] read_frame_parse(3) [of c]
  show "\<exists>c'. read_frame c = Frame (Msg 5006 []) c' \<and> pending c' = suf"
    by (cases "read_frame c") (auto simp: frame_view_def)
  obtain r g where f: "ForwadHttp e (Msg 5006 []) (l_g (focus i s)) = (r, g)" by fastforce
  then show "g_reqs (snd (ForwadHttp e (Msg 5006 []) (l_g (focus i s)))) = y_reqs (fin_forward e i s)"
    by (simp add: fin_forward_def set_fin_def on_slot_def put_back_def AlertAuto_def Let_def split: go.split)
qed

lemma forged_disconnect_witness:
  "\<exists>c'. read_frame (demo_conn1\<lparr>c_in := [frame 5006 [] 0]\<rparr>) = Frame (Msg 5006 []) c'"
proof -
  have "pending (demo_conn1\<lparr>c_in := [frame 5006 [] 0]\<rparr>) = frame 5006 [] 0 @ []"
    by (simp add: pending_def demo_conn1_def)
  from forged_disconnect [OF this] show ?thesis by blast
qed

end
