(* ===== verification/Encoding.thy ===== *)
theory Encoding
  imports Prelude
begin

text \<open>
  The reflective binary encoding of \<open>src/pkg/encoding\<close>: the types it registers
  (\<open>types.go\<close>), \<open>Marshal\<close> (\<open>encode.go\<close>) and \<open>Unmarshal\<close> (\<open>decode.go\<close>).

  Values live in a heap, because sharing matters: pointers refer to objects, and slices to
  backing arrays with a capacity. A byte slice is kept by value: the code always copies it.
  Recursion follows the value or the type and may not end (a slice may contain itself, a
  type may refer to itself), so every routine has fuel; running out of it is an outcome of
  its own. Go identifiers are taken to be ASCII.
\<close>

section \<open>Types and values\<close>

datatype ty =
    TBool | TByte | TInt16 | TUint16 | TInt32 | TUint32 | TFloat32 | TFloat64 | TString | TInt8
  | TSlice ty
  | TPtr ty
  | TStruct "(string \<times> ty) list"
  | TNamed ty              \<comment> \<open>a defined type that is not a struct\<close>
  | TRef string            \<comment> \<open>a defined struct type, by name\<close>
  | TOther string

text \<open>The declarations of defined struct types.\<close>

type_synonym tenv = "(string \<times> (string \<times> ty) list) list"

text \<open>
  Numbers are kept as their bits: signed integers and floats are converted bit by bit on
  the way in and out.
\<close>

datatype gval =
    VBool bool | VByte byte | VInt16 u16 | VUint16 u16 | VInt32 u32 | VUint32 u32
  | VFloat32 u32 | VFloat64 u64 | VString bytes | VInt8 byte
  | VBytes bytes
  | VSlice "nat option" nat nat          \<comment> \<open>array, length, capacity; nil has no array\<close>
  | VPtr "nat option"
  | VStruct "(string \<times> gval) list"
  | VNamed gval
  | VOther string

record heap =
  h_objs :: "gval list"
  h_arrs :: "gval list list"

definition slice_elems :: "heap \<Rightarrow> nat option \<Rightarrow> nat \<Rightarrow> gval list" where
  "slice_elems h a len = (case a of None \<Rightarrow> [] | Some i \<Rightarrow> take len (h_arrs h ! i))"

text \<open>
  Fields whose name starts with a lower-case letter are skipped. \<open>Interface()\<close> panics on
  any other field that is not exported, such as one that starts with an underscore.
\<close>

definition skipped :: "string \<Rightarrow> bool" where
  "skipped name \<longleftrightarrow> (case name of [] \<Rightarrow> False | c # _ \<Rightarrow> 97 \<le> (of_char c :: nat) \<and> (of_char c :: nat) \<le> 122)"

definition exported :: "string \<Rightarrow> bool" where
  "exported name \<longleftrightarrow> (case name of [] \<Rightarrow> False | c # _ \<Rightarrow> 65 \<le> (of_char c :: nat) \<and> (of_char c :: nat) \<le> 90)"

section \<open>Registering a type\<close>

datatype check = Accept | Reject string | CheckLoop

fun check_fields :: "(ty \<Rightarrow> check) \<Rightarrow> (string \<times> ty) list \<Rightarrow> check" where
  "check_fields chk [] = Accept"
| "check_fields chk ((name, t) # fs) =
     (if skipped name then check_fields chk fs
      else case chk t of
             Accept \<Rightarrow> check_fields chk fs
           | Reject e \<Rightarrow> Reject (''struct field '' @ name @ '' type error: '' @ e)
           | CheckLoop \<Rightarrow> CheckLoop)"

fun underlying :: "tenv \<Rightarrow> ty \<Rightarrow> ty" where
  "underlying env (TNamed t) = underlying env t"
| "underlying env (TRef n) = (case map_of env n of None \<Rightarrow> TOther n | Some fs \<Rightarrow> TStruct fs)"
| "underlying env t = t"

definition is_struct :: "ty \<Rightarrow> bool" where
  "is_struct t \<longleftrightarrow> (case t of TStruct _ \<Rightarrow> True | _ \<Rightarrow> False)"

fun CheckRegisterTypeInner :: "tenv \<Rightarrow> nat \<Rightarrow> ty \<Rightarrow> check" where
  "CheckRegisterTypeInner env 0 t = CheckLoop"
| "CheckRegisterTypeInner env (Suc n) t =
     (case underlying env t of
        TOther s \<Rightarrow> Reject (''cannot use type '' @ s)
      | TPtr t' \<Rightarrow>
          if \<not> is_struct (underlying env t') then Reject ''a pointer can only point to a struct''
          else (case CheckRegisterTypeInner env n t' of
                  Reject e \<Rightarrow> Reject (''pointer to struct type error: '' @ e)
                | r \<Rightarrow> r)
      | TSlice t' \<Rightarrow>
          (case CheckRegisterTypeInner env n t' of
             Reject e \<Rightarrow> Reject (''slice element type error: '' @ e)
           | r \<Rightarrow> r)
      | TStruct fs \<Rightarrow> check_fields (CheckRegisterTypeInner env n) fs
      | _ \<Rightarrow> Accept)"

definition CheckRegisterType :: "tenv \<Rightarrow> nat \<Rightarrow> ty \<Rightarrow> check" where
  "CheckRegisterType env n t =
     (case underlying env t of
        TPtr t' \<Rightarrow>
          if is_struct (underlying env t') then CheckRegisterTypeInner env n t
          else Reject ''register type must be a pointer to struct''
      | _ \<Rightarrow> Reject ''register type must be a pointer'')"

section \<open>Marshal\<close>

datatype enc_res = EOk bytes | EErr string | EPanic string | EDeep

definition enc_bind :: "enc_res \<Rightarrow> (bytes \<Rightarrow> enc_res) \<Rightarrow> enc_res" where
  "enc_bind r f = (case r of EOk b \<Rightarrow> f b | _ \<Rightarrow> r)"

text \<open>An error is wrapped on its way out; panics and divergence pass through.\<close>

definition enc_wrap :: "string \<Rightarrow> enc_res \<Rightarrow> enc_res" where
  "enc_wrap msg r = (case r of EErr e \<Rightarrow> EErr (msg @ e) | _ \<Rightarrow> r)"

fun enc_fields :: "(gval \<Rightarrow> enc_res) \<Rightarrow> (string \<times> gval) list \<Rightarrow> enc_res" where
  "enc_fields enc [] = EOk []"
| "enc_fields enc ((name, v) # fs) =
     (if skipped name then enc_fields enc fs
      else if \<not> exported name then EPanic ''cannot return value obtained from unexported field''
      else enc_bind (enc_wrap (''encode field '' @ name @ '' error: '') (enc v)) (\<lambda>b.
           enc_bind (enc_fields enc fs) (\<lambda>r. EOk (b @ r))))"

fun enc_elems :: "(gval \<Rightarrow> enc_res) \<Rightarrow> nat \<Rightarrow> gval list \<Rightarrow> enc_res" where
  "enc_elems enc i [] = EOk []"
| "enc_elems enc i (v # vs) =
     enc_bind (enc_wrap (''encode array['' @ dec i @ ''] error: '') (enc v)) (\<lambda>b.
     enc_bind (enc_elems enc (Suc i) vs) (\<lambda>r. EOk (b @ r)))"

definition enc_array :: "(gval \<Rightarrow> enc_res) \<Rightarrow> gval list \<Rightarrow> enc_res" where
  "enc_array enc vs =
     (if 65535 < int (length vs) then EErr ''array too long''
      else enc_bind (enc_elems enc 0 vs) (\<lambda>b. EOk (put_u16 (word_of_nat (length vs)) @ b)))"

definition startDetectingCyclesAfter :: nat where "startDetectingCyclesAfter = 100"

text \<open>
  \<open>level\<close> is \<open>ptrLevel\<close> and \<open>seen\<close> is \<open>ptrSeen\<close>: both are restored when a call returns,
  so they are passed down. After a pointer has been followed, or for a value that no case of
  the type switch matches, the kind decides.
\<close>

fun unname :: "gval \<Rightarrow> gval" where
  "unname (VNamed v) = unname v"
| "unname v = v"

definition enc_kind :: "(gval \<Rightarrow> enc_res) \<Rightarrow> heap \<Rightarrow> gval \<Rightarrow> enc_res" where
  "enc_kind enc h v =
     (case unname v of
        VStruct fs \<Rightarrow> enc_wrap ''encode type error: '' (enc_fields enc fs)
      | VSlice a len cap \<Rightarrow> enc_wrap ''encode type error: '' (enc_array enc (slice_elems h a len))
      | VBytes b \<Rightarrow> enc_wrap ''encode type error: '' (enc_array enc (map VByte b))
      | _ \<Rightarrow> EPanic ''Unknown type'')"

text \<open>The type switch at the start of \<open>encode\<close>.\<close>

definition enc_basic :: "gval \<Rightarrow> enc_res option" where
  "enc_basic v =
     (case v of
        VBool b \<Rightarrow> Some (EOk [if b then 1 else 0])
      | VByte b \<Rightarrow> Some (EOk [b])
      | VInt16 w \<Rightarrow> Some (EOk (put_u16 w))
      | VUint16 w \<Rightarrow> Some (EOk (put_u16 w))
      | VInt32 w \<Rightarrow> Some (EOk (put_u32 w))
      | VUint32 w \<Rightarrow> Some (EOk (put_u32 w))
      | VFloat32 w \<Rightarrow> Some (EOk (put_u32 w))
      | VFloat64 w \<Rightarrow> Some (EOk (put_u64 w))
      | VString s \<Rightarrow>
          Some (if 0 \<in> set s then EErr ''string contains a zero byte'' else EOk (s @ [0]))
      | VBytes b \<Rightarrow>
          Some (if 65535 < int (length b) then EErr ''byte array too long''
                else EOk (put_u16 (word_of_nat (length b)) @ b))
      | _ \<Rightarrow> None)"

fun encode :: "heap \<Rightarrow> nat \<Rightarrow> nat \<Rightarrow> nat list \<Rightarrow> gval \<Rightarrow> enc_res" where
  "encode h 0 level seen v = EDeep"
| "encode h (Suc n) level seen v =
     (case enc_basic v of
        Some r \<Rightarrow> r
      | None \<Rightarrow>
          (case unname v of
             VPtr None \<Rightarrow> EErr ''encode nil''
           | VPtr (Some p) \<Rightarrow>
               (let level = level + 1
                in if startDetectingCyclesAfter < level \<and> p \<in> set seen
                   then EErr ''encode encountered a cycle''
                   else enc_kind
                     (encode h n level (if startDetectingCyclesAfter < level then p # seen else seen))
                     h (h_objs h ! p))
           | _ \<Rightarrow> enc_kind (encode h n level seen) h v))"

definition Marshal :: "heap \<Rightarrow> nat \<Rightarrow> gval \<Rightarrow> enc_res" where
  "Marshal h n v = enc_wrap ''encode error: '' (encode h n 0 [] v)"

section \<open>Unmarshal\<close>

text \<open>The zero value of a type; a struct type that contains itself has none (fuel).\<close>

fun zero_fields :: "(ty \<Rightarrow> gval option) \<Rightarrow> (string \<times> ty) list \<Rightarrow> (string \<times> gval) list option" where
  "zero_fields z [] = Some []"
| "zero_fields z ((name, t) # fs) =
     (case z t of None \<Rightarrow> None
      | Some v \<Rightarrow> map_option (\<lambda>r. (name, v) # r) (zero_fields z fs))"

fun zero :: "tenv \<Rightarrow> nat \<Rightarrow> ty \<Rightarrow> gval option" where
  "zero env 0 t = None"
| "zero env (Suc n) t =
     (case t of
        TBool \<Rightarrow> Some (VBool False) | TByte \<Rightarrow> Some (VByte 0)
      | TInt16 \<Rightarrow> Some (VInt16 0) | TUint16 \<Rightarrow> Some (VUint16 0)
      | TInt32 \<Rightarrow> Some (VInt32 0) | TUint32 \<Rightarrow> Some (VUint32 0)
      | TFloat32 \<Rightarrow> Some (VFloat32 0) | TFloat64 \<Rightarrow> Some (VFloat64 0)
      | TString \<Rightarrow> Some (VString []) | TInt8 \<Rightarrow> Some (VInt8 0)
      | TSlice et \<Rightarrow> Some (if et = TByte then VBytes [] else VSlice None 0 0)
      | TPtr _ \<Rightarrow> Some (VPtr None)
      | TStruct fs \<Rightarrow> map_option VStruct (zero_fields (zero env n) fs)
      | TNamed t' \<Rightarrow> map_option VNamed (zero env n t')
      | TRef name \<Rightarrow> (case map_of env name of None \<Rightarrow> Some (VOther name)
          | Some fs \<Rightarrow> map_option VStruct (zero_fields (zero env n) fs))
      | TOther s \<Rightarrow> Some (VOther s))"

text \<open>
  The decoder's position and the heap. Decoding works in place: a result carries the value
  the location holds afterwards, also when it is an error.
\<close>

record dst =
  d_off :: nat
  d_heap :: heap

datatype 'v dec_res = DOk 'v dst | DErr string 'v dst | DPanic string | DDeep

primrec dec_map :: "('v \<Rightarrow> 'w) \<Rightarrow> 'v dec_res \<Rightarrow> 'w dec_res" where
  "dec_map f (DOk v s) = DOk (f v) s"
| "dec_map f (DErr e v s) = DErr e (f v) s"
| "dec_map f (DPanic p) = DPanic p"
| "dec_map f DDeep = DDeep"

definition rest :: "bytes \<Rightarrow> dst \<Rightarrow> bytes" where
  "rest data s = drop (d_off s) data"

definition skip :: "nat \<Rightarrow> dst \<Rightarrow> dst" where
  "skip k s = s\<lparr>d_off := d_off s + k\<rparr>"

text \<open>A value of fixed width: an error at the end of the data, or the value read.\<close>

definition dec_fixed ::
  "string \<Rightarrow> nat \<Rightarrow> (bytes \<Rightarrow> gval) \<Rightarrow> bytes \<Rightarrow> gval \<Rightarrow> dst \<Rightarrow> gval dec_res" where
  "dec_fixed err k mk data v s =
     (if length data < d_off s + k then DErr err v s
      else DOk (mk (take k (rest data s))) (skip k s))"

definition index_zero :: "bytes \<Rightarrow> nat option" where
  "index_zero b = (if 0 \<in> set b then Some (length (takeWhile (\<lambda>x. x \<noteq> 0) b)) else None)"

definition dec_string :: "bytes \<Rightarrow> gval \<Rightarrow> dst \<Rightarrow> gval dec_res" where
  "dec_string data v s =
     (if length data \<le> d_off s then DErr ''read string EOF'' v s
      else case index_zero (rest data s) of
             None \<Rightarrow> DErr ''read string no zero'' v s
           | Some l \<Rightarrow> DOk (VString (take l (rest data s))) (skip (l + 1) s))"

definition dec_bytes :: "bytes \<Rightarrow> gval \<Rightarrow> dst \<Rightarrow> gval dec_res" where
  "dec_bytes data v s =
     (if length data < d_off s + 2 then DErr ''read byte array len EOF'' v s
      else let ll = unat (get_u16 (take 2 (rest data s))); s = skip 2 s
           in if length data < d_off s + ll then DErr ''read byte array EOF'' v s
              else DOk (VBytes (take ll (rest data s))) (skip ll s))"

fun dec_fields ::
  "(ty \<Rightarrow> gval \<Rightarrow> dst \<Rightarrow> gval dec_res) \<Rightarrow> (string \<times> ty) list \<Rightarrow> (string \<times> gval) list \<Rightarrow> dst \<Rightarrow>
     (string \<times> gval) list dec_res"
where
  "dec_fields d ((name, t) # fs) ((name', v) # vs) s =
     (if skipped name then dec_map (\<lambda>r. (name', v) # r) (dec_fields d fs vs s)
      else if \<not> exported name then DPanic ''cannot return value obtained from unexported field''
      else case d t v s of
             DOk v s \<Rightarrow> dec_map (\<lambda>r. (name', v) # r) (dec_fields d fs vs s)
           | DErr e v s \<Rightarrow> DErr (''decode field '' @ name @ '' error: '' @ e) ((name', v) # vs) s
           | DPanic p \<Rightarrow> DPanic p
           | DDeep \<Rightarrow> DDeep)"
| "dec_fields d fs vs s = DOk vs s"

text \<open>
  \<open>reflect.Append\<close> of one value: in place when the capacity allows it, otherwise into a
  new array whose spare elements are zero.
\<close>

definition append1 :: "(nat \<Rightarrow> nat \<Rightarrow> nat) \<Rightarrow> gval \<Rightarrow> gval \<Rightarrow> gval \<Rightarrow> heap \<Rightarrow> gval \<times> heap" where
  "append1 grow z sl x h =
     (case sl of
        VBytes b \<Rightarrow> (case x of VByte c \<Rightarrow> (VBytes (b @ [c]), h) | _ \<Rightarrow> (sl, h))
      | VSlice a len cap \<Rightarrow>
          (case a of
             Some i \<Rightarrow>
               if len + 1 \<le> cap
               then (VSlice a (len + 1) cap, h\<lparr>h_arrs := (h_arrs h)[i := (h_arrs h ! i)[len := x]]\<rparr>)
               else let cap' = append_cap grow cap (len + 1)
                    in (VSlice (Some (length (h_arrs h))) (len + 1) cap',
                        h\<lparr>h_arrs := h_arrs h @
                            [take len (h_arrs h ! i) @ [x] @ replicate (cap' - len - 1) z]\<rparr>)
           | None \<Rightarrow>
               let cap' = append_cap grow cap (len + 1)
               in (VSlice (Some (length (h_arrs h))) (len + 1) cap',
                   h\<lparr>h_arrs := h_arrs h @ [[x] @ replicate (cap' - 1) z]\<rparr>))
      | _ \<Rightarrow> (sl, h))"

fun dec_loop ::
  "(nat \<Rightarrow> nat \<Rightarrow> nat) \<Rightarrow> (gval \<Rightarrow> dst \<Rightarrow> gval dec_res) \<Rightarrow> gval \<Rightarrow> nat \<Rightarrow> nat \<Rightarrow> gval \<Rightarrow> gval \<Rightarrow> dst \<Rightarrow>
     gval dec_res"
where
  "dec_loop grow d z 0 i vv sl s = DOk sl s"
| "dec_loop grow d z (Suc k) i vv sl s =
     (case d vv s of
        DOk vv s \<Rightarrow>
          (case append1 grow z sl vv (d_heap s) of
             (sl, h) \<Rightarrow> dec_loop grow d z k (i + 1) vv sl (s\<lparr>d_heap := h\<rparr>))
      | DErr e vv s \<Rightarrow> DErr (''decode array['' @ dec i @ ''] error: '' @ e) sl s
      | DPanic p \<Rightarrow> DPanic p
      | DDeep \<Rightarrow> DDeep)"

text \<open>
  \<open>decodeArray\<close>: one variable \<open>vv\<close> is decoded into again and again, and its value is
  appended each time.
\<close>

definition dec_array ::
  "(nat \<Rightarrow> nat \<Rightarrow> nat) \<Rightarrow> (gval \<Rightarrow> dst \<Rightarrow> gval dec_res) \<Rightarrow> gval option \<Rightarrow> bytes \<Rightarrow> gval \<Rightarrow> dst \<Rightarrow>
     gval dec_res"
where
  "dec_array grow d z data v s =
     (if length data < d_off s + 2 then DErr ''read array len EOF'' v s
      else let ll = unat (get_u16 (take 2 (rest data s))); s = skip 2 s
           in case z of None \<Rightarrow> DDeep
              | Some z \<Rightarrow>
                  dec_loop grow d z ll 0 z
                    (case v of VSlice a _ cap \<Rightarrow> VSlice a 0 cap | VBytes _ \<Rightarrow> VBytes [] | _ \<Rightarrow> v) s)"

fun rename_as :: "gval \<Rightarrow> gval \<Rightarrow> gval" where
  "rename_as (VNamed v) w = VNamed (rename_as v w)"
| "rename_as v w = w"

definition dec_kind ::
  "tenv \<Rightarrow> (nat \<Rightarrow> nat \<Rightarrow> nat) \<Rightarrow> (ty \<Rightarrow> gval \<Rightarrow> dst \<Rightarrow> gval dec_res) \<Rightarrow> (ty \<Rightarrow> gval option) \<Rightarrow> bytes \<Rightarrow>
     ty \<Rightarrow> gval \<Rightarrow> dst \<Rightarrow> gval dec_res"
where
  "dec_kind env grow d z data t v s =
     dec_map (rename_as v)
       (case underlying env t of
          TStruct fs \<Rightarrow>
            (case unname v of VStruct vs \<Rightarrow> dec_map VStruct (dec_fields d fs vs s) | _ \<Rightarrow> DPanic ''ill-typed'')
        | TSlice et \<Rightarrow> dec_array grow (d et) (z et) data (unname v) s
        | _ \<Rightarrow> DPanic ''Unknown type'')"

text \<open>The type switch at the start of \<open>decode\<close>: exactly the basic types and byte slices.\<close>

definition dec_basic :: "bytes \<Rightarrow> ty \<Rightarrow> gval \<Rightarrow> dst \<Rightarrow> gval dec_res option" where
  "dec_basic data t v s =
     (if t = TSlice TByte then Some (dec_bytes data v s)
      else case t of
        TBool \<Rightarrow> Some (dec_fixed ''read bool EOF'' 1 (\<lambda>b. VBool (b ! 0 \<noteq> 0)) data v s)
      | TByte \<Rightarrow> Some (dec_fixed ''read byte EOF'' 1 (\<lambda>b. VByte (b ! 0)) data v s)
      | TInt16 \<Rightarrow> Some (dec_fixed ''read int16 EOF'' 2 (\<lambda>b. VInt16 (get_u16 b)) data v s)
      | TUint16 \<Rightarrow> Some (dec_fixed ''read uint16 EOF'' 2 (\<lambda>b. VUint16 (get_u16 b)) data v s)
      | TInt32 \<Rightarrow> Some (dec_fixed ''read int32 EOF'' 4 (\<lambda>b. VInt32 (get_u32 b)) data v s)
      | TUint32 \<Rightarrow> Some (dec_fixed ''read uint32 EOF'' 4 (\<lambda>b. VUint32 (get_u32 b)) data v s)
      | TFloat32 \<Rightarrow> Some (dec_fixed ''read float32 EOF'' 4 (\<lambda>b. VFloat32 (get_u32 b)) data v s)
      | TFloat64 \<Rightarrow> Some (dec_fixed ''read float64 EOF'' 8 (\<lambda>b. VFloat64 (get_u64 b)) data v s)
      | TString \<Rightarrow> Some (dec_string data v s)
      | _ \<Rightarrow> None)"

text \<open>The object a pointer refers to; a nil pointer is given a new zero object first.\<close>

definition dec_object :: "tenv \<Rightarrow> nat \<Rightarrow> ty \<Rightarrow> gval \<Rightarrow> heap \<Rightarrow> (nat \<times> heap) option" where
  "dec_object env n t' v h =
     (case unname v of
        VPtr (Some p) \<Rightarrow> Some (p, h)
      | _ \<Rightarrow> map_option (\<lambda>z. (length (h_objs h), h\<lparr>h_objs := h_objs h @ [z]\<rparr>)) (zero env n t'))"

definition dec_store :: "gval \<Rightarrow> nat \<Rightarrow> gval dec_res \<Rightarrow> gval dec_res" where
  "dec_store v p r =
     (let store = (\<lambda>v' s. s\<lparr>d_heap := (d_heap s)\<lparr>h_objs := (h_objs (d_heap s))[p := v']\<rparr>\<rparr>);
          ptr = rename_as v (VPtr (Some p))
      in case r of
           DOk v' s \<Rightarrow> DOk ptr (store v' s)
         | DErr e v' s \<Rightarrow> DErr e ptr (store v' s)
         | DPanic m \<Rightarrow> DPanic m
         | DDeep \<Rightarrow> DDeep)"

text \<open>
  \<open>decode\<close> of a location of type \<open>t\<close> that holds \<open>v\<close>: the type switch, then a pointer is
  followed once, then the kind decides.
\<close>

fun decode ::
  "tenv \<Rightarrow> (nat \<Rightarrow> nat \<Rightarrow> nat) \<Rightarrow> bytes \<Rightarrow> nat \<Rightarrow> ty \<Rightarrow> gval \<Rightarrow> dst \<Rightarrow> gval dec_res"
where
  "decode env grow data 0 t v s = DDeep"
| "decode env grow data (Suc n) t v s =
     (case dec_basic data t v s of
        Some r \<Rightarrow> r
      | None \<Rightarrow>
          (case underlying env t of
             TPtr t' \<Rightarrow>
               (case dec_object env n t' v (d_heap s) of
                  None \<Rightarrow> DDeep
                | Some (p, h) \<Rightarrow>
                    dec_store v p
                      (dec_kind env grow (decode env grow data n) (zero env n) data t' (h_objs h ! p)
                        (s\<lparr>d_heap := h\<rparr>)))
           | _ \<Rightarrow> dec_kind env grow (decode env grow data n) (zero env n) data t v s))"

text \<open>
  \<open>Unmarshal(p, v)\<close> for \<open>v\<close> the address of a location of type \<open>t\<close> that holds \<open>v0\<close>: how
  many bytes were read, what the location holds afterwards, and the heap.
\<close>

definition Unmarshal ::
  "tenv \<Rightarrow> (nat \<Rightarrow> nat \<Rightarrow> nat) \<Rightarrow> nat \<Rightarrow> bytes \<Rightarrow> ty \<Rightarrow> gval \<Rightarrow> heap \<Rightarrow> gval dec_res"
where
  "Unmarshal env grow n p t v0 h = decode env grow p n t v0 \<lparr>d_off = 0, d_heap = h\<rparr>"

end
