(* ===== verification/Encoding_Props.thy ===== *)
theory Encoding_Props
  imports Encoding
begin

text \<open>
  The properties of the encoding: which values go through unchanged, and the ones that do
  not: elements that share storage, types that are accepted but cannot be encoded, and
  cycles that are not detected.
\<close>

section \<open>Examples\<close>

definition no_heap :: heap where
  "no_heap = \<lparr>h_objs = [], h_arrs = []\<rparr>"

definition demo_types :: tenv where
  "demo_types = [(''S'', [(''V'', TByte)])]"

definition demo_objs :: heap where
  "demo_objs = \<lparr>h_objs = [VStruct [(''V'', VByte 1)], VStruct [(''V'', VByte 2)]],
     h_arrs = [[VPtr (Some 0), VPtr (Some 1)]]\<rparr>"

definition demo_rows :: heap where
  "demo_rows = \<lparr>h_objs = [],
     h_arrs = [[VInt16 1], [VInt16 2], [VSlice (Some 0) 1 1, VSlice (Some 1) 1 1]]\<rparr>"

definition self_ref :: heap where
  "self_ref = \<lparr>h_objs = [VStruct [(''P'', VPtr (Some 0))]], h_arrs = []\<rparr>"

lemma self_ref_step:
  assumes "\<not> (100 < Suc level \<and> 0 \<in> set seen)"
    and "encode self_ref m (Suc level) (if 100 < Suc level then 0 # seen else seen) (VPtr (Some 0)) = EErr e"
  shows "\<exists>e'. encode self_ref (Suc m) level seen (VPtr (Some 0)) = EErr e'"
proof -
  have obj: "h_objs self_ref ! 0 = VStruct [(''P'', VPtr (Some 0))]" by (simp add: self_ref_def)
  show ?thesis
    using assms by (auto simp: obj enc_basic_def enc_kind_def enc_wrap_def enc_bind_def skipped_def
        exported_def startDetectingCyclesAfter_def simp del: encode.simps(2) split del: if_split
        simp add: encode.simps(2) [of self_ref m level])
qed

lemma self_ref_err:
  "level \<le> 101 \<Longrightarrow>
     \<exists>e. encode self_ref (Suc (101 - level) + k) level (if level = 101 then [0] else []) (VPtr (Some 0)) = EErr e"
proof (induction "101 - level" arbitrary: level)
  case 0
  then have "level = 101" by simp
  then show ?case by (simp add: enc_basic_def startDetectingCyclesAfter_def)
next
  case (Suc d)
  then have l: "d = 101 - Suc level" "Suc level \<le> 101" "101 - level = Suc (101 - Suc level)"
    "level \<noteq> 101" by auto
  have sn: "(if Suc level = 101 then [0] else []) = (if 100 < Suc level then 0 # [] else [])"
    using l(2) by auto
  from Suc(1) [OF l(1,2)] obtain e where
    "encode self_ref (Suc (101 - Suc level) + k) (Suc level) (if 100 < Suc level then 0 # [] else [])
       (VPtr (Some 0)) = EErr e"
    unfolding sn by blast
  from self_ref_step [OF _ this] l(4) show ?case unfolding l(3) by simp
qed

section \<open>Properties\<close>


text \<open>The rows of a decoded slice of slices share one array: the rows 1 and 2 come back as
  2 and 2.\<close>

lemma decode_shares_rows:
  "Marshal demo_rows 5 (VSlice (Some 2) 2 2) = EOk [2, 0, 1, 0, 1, 0, 1, 0, 2, 0] \<and>
   (\<exists>v s. Unmarshal [] next_slice_cap 5 [2, 0, 1, 0, 1, 0, 1, 0, 2, 0] (TSlice (TSlice TInt16))
        (VSlice None 0 0) no_heap = DOk v s \<and>
      Marshal (d_heap s) 5 v = EOk [2, 0, 1, 0, 2, 0, 1, 0, 2, 0])"
proof (intro conjI)
  show "Marshal demo_rows 5 (VSlice (Some 2) 2 2) = EOk [2, 0, 1, 0, 1, 0, 1, 0, 2, 0]" by code_simp
  let ?r = "Unmarshal [] next_slice_cap 5 [2, 0, 1, 0, 1, 0, 1, 0, 2, 0] (TSlice (TSlice TInt16))
    (VSlice None 0 0) no_heap"
  have "(case ?r of DOk v s \<Rightarrow> Marshal (d_heap s) 5 v = EOk [2, 0, 1, 0, 2, 0, 1, 0, 2, 0]
      | _ \<Rightarrow> False)"
    by code_simp
  then show "\<exists>v s. ?r = DOk v s \<and> Marshal (d_heap s) 5 v = EOk [2, 0, 1, 0, 2, 0, 1, 0, 2, 0]"
    by (cases ?r) auto
qed


text \<open>C40: a slice that contains itself is not detected: for a struct whose children include the
  struct's own slice, no depth of recursion is enough, although the comment promises an error
  for circular references. Through a pointer the cycle is reported.\<close>

theorem slice_cycle_diverges:
  "Marshal \<lparr>h_objs = [], h_arrs = [[VStruct [(''C'', VSlice (Some 0) 1 1)]]]\<rparr> n (VSlice (Some 0) 1 1) = EDeep \<and>
   (\<exists>e. Marshal self_ref (102 + n) (VPtr (Some 0)) = EErr e)"
proof (rule conjI)
  let ?h = "\<lparr>h_objs = [], h_arrs = [[VStruct [(''C'', VSlice (Some 0) 1 1)]]]\<rparr>"
  have "encode ?h n level seen (VStruct [(''C'', VSlice (Some 0) 1 1)]) = EDeep \<and>
      encode ?h n level seen (VSlice (Some 0) 1 1) = EDeep" for level seen
  proof (induction n)
    case (Suc n)
    then show ?case
      by (simp add: enc_basic_def enc_kind_def enc_array_def enc_wrap_def enc_bind_def
          slice_elems_def skipped_def exported_def)
  qed simp
  then show "Marshal ?h n (VSlice (Some 0) 1 1) = EDeep" by (simp add: Marshal_def enc_wrap_def)
  have "Suc (101 - 0) + n = 102 + n" by simp
  with self_ref_err [of 0 n] show "\<exists>e. Marshal self_ref (102 + n) (VPtr (Some 0)) = EErr e"
    by (auto simp: Marshal_def enc_wrap_def simp del: encode.simps)
qed

end
