(* ===== verification/Encoding_Round.thy ===== *)
theory Encoding_Round
  imports Complex_Main Encoding
begin

text \<open>
  What the encoding is for: a value that is a finite tree is encoded as the bytes of that
  tree, and decoding these bytes gives back a value with the same tree.
\<close>

section \<open>Trees\<close>

text \<open>
  The content of a value, without the heap: skipped fields are left out, and a pointer is
  what it points to.
\<close>

datatype tree = Leaf gval | Node "(string \<times> tree) list" | Seq "tree list" | Ref tree

definition basic_bytes :: "gval \<Rightarrow> bytes" where
  "basic_bytes v = (case enc_basic v of Some (EOk b) \<Rightarrow> b | _ \<Rightarrow> [])"

fun tree_bytes :: "tree \<Rightarrow> bytes" where
  "tree_bytes (Leaf v) = basic_bytes v"
| "tree_bytes (Node fs) = concat (map (\<lambda>f. tree_bytes (snd f)) fs)"
| "tree_bytes (Seq ts) = put_u16 (word_of_nat (length ts)) @ concat (map tree_bytes ts)"
| "tree_bytes (Ref t) = tree_bytes t"

definition kept :: "(string \<times> 'a) list \<Rightarrow> (string \<times> 'a) list" where
  "kept fs = filter (\<lambda>f. \<not> skipped (fst f)) fs"

text \<open>
  \<open>rep h p a v t\<close>: in the heap \<open>h\<close> the value \<open>v\<close> is the tree \<open>t\<close>, and it refers only to
  objects from \<open>p\<close> on and to arrays from \<open>a\<close> on.
\<close>

definition is_leaf :: "gval \<Rightarrow> bool" where
  "is_leaf v \<longleftrightarrow> (\<exists>b. enc_basic v = Some (EOk b))"

inductive rep :: "heap \<Rightarrow> nat \<Rightarrow> nat \<Rightarrow> gval \<Rightarrow> tree \<Rightarrow> bool" for h p a where
  RLeaf: "is_leaf v \<Longrightarrow> rep h p a v (Leaf v)"
| RStruct: "list_all2 (\<lambda>f g. fst f = fst g \<and> exported (fst f) \<and> rep h p a (snd f) (snd g)) (kept vs) ts
    \<Longrightarrow> rep h p a (VStruct vs) (Node ts)"
| RNil: "rep h p a (VSlice None 0 c) (Seq [])"
| RSlice: "a \<le> i \<Longrightarrow> i < length (h_arrs h) \<Longrightarrow> n \<le> length (h_arrs h ! i) \<Longrightarrow> n \<le> 65535 \<Longrightarrow>
    list_all2 (rep h p a) (take n (h_arrs h ! i)) ts \<Longrightarrow> rep h p a (VSlice (Some i) n c) (Seq ts)"
| RPtr: "p \<le> q \<Longrightarrow> q < length (h_objs h) \<Longrightarrow> rep h p a (h_objs h ! q) (Node ts) \<Longrightarrow>
    rep h p a (VPtr (Some q)) (Ref (Node ts))"
| RNamed: "rep h p a v (Seq ts) \<Longrightarrow> rep h p a (VNamed v) (Seq ts)"

inductive_cases rep_LeafE: "rep h p a v (Leaf l)"
inductive_cases rep_NodeE: "rep h p a v (Node ts)"
inductive_cases rep_SeqE: "rep h p a v (Seq ts)"
inductive_cases rep_RefE: "rep h p a v (Ref t)"
inductive_simps rep_struct: "rep h p a (VStruct vs) t"
inductive_simps rep_slice: "rep h p a (VSlice i n c) t"
inductive_simps rep_ptr: "rep h p a (VPtr q) t"
inductive_simps rep_named: "rep h p a (VNamed v) t"

lemma rep_mono: "rep h p a v t \<Longrightarrow> p' \<le> p \<Longrightarrow> a' \<le> a \<Longrightarrow> rep h p' a' v t"
proof (induction rule: rep.induct)
  case (RStruct vs ts)
  then show ?case by (auto intro!: rep.RStruct elim!: list_all2_mono)
next
  case (RSlice i n ts c)
  then show ?case by (auto intro!: rep.RSlice elim!: list_all2_mono)
next
  case (RPtr q ts)
  then show ?case by (auto intro!: rep.RPtr)
qed (auto intro: rep.intros)

text \<open>A change below the bounds, and growth, go unnoticed.\<close>

definition same_above :: "nat \<Rightarrow> nat \<Rightarrow> heap \<Rightarrow> heap \<Rightarrow> bool" where
  "same_above p a h h' \<longleftrightarrow>
     length (h_objs h) \<le> length (h_objs h') \<and> length (h_arrs h) \<le> length (h_arrs h') \<and>
     (\<forall>q. p \<le> q \<and> q < length (h_objs h) \<longrightarrow> h_objs h' ! q = h_objs h ! q) \<and>
     (\<forall>i. a \<le> i \<and> i < length (h_arrs h) \<longrightarrow> h_arrs h' ! i = h_arrs h ! i)"

lemma rep_frame: "rep h p a v t \<Longrightarrow> same_above p a h h' \<Longrightarrow> rep h' p a v t"
proof (induction rule: rep.induct)
  case (RStruct vs ts)
  then show ?case by (auto intro!: rep.RStruct elim!: list_all2_mono)
next
  case (RSlice i n ts c)
  then have "h_arrs h' ! i = h_arrs h ! i" "i < length (h_arrs h')" by (auto simp: same_above_def)
  with RSlice show ?case by (auto intro!: rep.RSlice elim!: list_all2_mono)
next
  case (RPtr q ts)
  then have "h_objs h' ! q = h_objs h ! q" "q < length (h_objs h')" by (auto simp: same_above_def)
  with RPtr show ?case by (auto intro!: rep.RPtr)
qed (auto intro: rep.intros)

text \<open>The tree of a value is unique.\<close>

lemma enc_basic_None [simp]:
  "enc_basic (VStruct vs) = None" "enc_basic (VSlice i n c) = None" "enc_basic (VPtr q) = None"
  "enc_basic (VNamed v) = None"
  by (simp_all add: enc_basic_def)

lemma is_leaf_basic [simp]:
  "\<not> is_leaf (VStruct vs)" "\<not> is_leaf (VSlice i n c)" "\<not> is_leaf (VPtr q)" "\<not> is_leaf (VNamed v)"
  by (simp_all add: is_leaf_def)

lemma list_all2_unique:
  assumes "list_all2 (\<lambda>x y. \<forall>z. Q x z \<longrightarrow> z = y) xs ys" and "list_all2 Q xs zs"
  shows "zs = ys"
  using assms by (induction xs arbitrary: ys zs) (auto simp: list_all2_Cons1)

lemma rep_unique: "rep h p a v t \<Longrightarrow> rep h p' a' v t' \<Longrightarrow> t' = t"
proof (induction arbitrary: t' rule: rep.induct)
  case (RStruct vs ts)
  let ?Q = "\<lambda>f g. fst f = fst g \<and> exported (fst f) \<and> rep h p' a' (snd f) (snd g)"
  from RStruct.prems obtain ts' where "t' = Node ts'" and "list_all2 ?Q (kept vs) ts'"
    by (auto simp: rep_struct)
  moreover from RStruct.IH have "list_all2 (\<lambda>f g. \<forall>g'. ?Q f g' \<longrightarrow> g' = g) (kept vs) ts"
    by (rule list_all2_mono) (metis prod.expand)
  ultimately show ?case using list_all2_unique [of ?Q] by blast
next
  case (RSlice i n ts c)
  from RSlice.prems obtain ts' where "t' = Seq ts'" and
    "list_all2 (rep h p' a') (take n (h_arrs h ! i)) ts'"
    by (auto simp: rep_slice)
  moreover from RSlice.IH have
    "list_all2 (\<lambda>x y. \<forall>z. rep h p' a' x z \<longrightarrow> z = y) (take n (h_arrs h ! i)) ts"
    by (rule list_all2_mono) blast
  ultimately show ?case using list_all2_unique [of "rep h p' a'"] by blast
next
  case (RPtr q ts)
  then show ?case  by (auto simp: rep_ptr)
next
  case (RLeaf v)
  from RLeaf.prems RLeaf.hyps show ?case by (cases rule: rep.cases) simp_all
next
  case (RNil c)
  then show ?case by (simp add: rep_slice)
next
  case (RNamed v ts)
  from RNamed.prems have "rep h p' a' v t'" by (auto simp: rep_named)
  then show ?case by (rule RNamed.IH)
qed

section \<open>Encoding a tree\<close>

abbreviation enough :: "(nat \<Rightarrow> bool) \<Rightarrow> bool" where
  "enough P \<equiv> eventually P sequentially"

lemma enough_list_all2:
  "list_all2 (\<lambda>x y. enough (Q x y)) xs ys \<Longrightarrow> enough (\<lambda>n. list_all2 (\<lambda>x y. Q x y n) xs ys)"
  by (induction rule: list_all2_induct) (auto elim: eventually_elim2)

lemma enough_Suc: "enough (\<lambda>n. P (Suc n)) \<Longrightarrow> enough P"
  by (simp add: eventually_sequentially_Suc)

lemma enc_bind_Ok [simp]: "enc_bind (EOk b) f = f b"
  by (simp add: enc_bind_def)

lemma enc_wrap_Ok [simp]: "enc_wrap e (EOk b) = EOk b"
  by (simp add: enc_wrap_def)

lemma enc_fields_Ok:
  "list_all2 (\<lambda>f g. fst f = fst g \<and> exported (fst f) \<and> enc (snd f) = EOk (tree_bytes (snd g))) (kept vs) ts
    \<Longrightarrow> enc_fields enc vs = EOk (concat (map (\<lambda>g. tree_bytes (snd g)) ts))"
  by (induction vs arbitrary: ts) (auto simp: kept_def list_all2_Cons1 split: if_splits)

lemma enc_elems_Ok:
  "list_all2 (\<lambda>v t. enc v = EOk (tree_bytes t)) vs ts \<Longrightarrow>
    enc_elems enc i vs = EOk (concat (map tree_bytes ts))"
  by (induction arbitrary: i rule: list_all2_induct) auto

lemma enc_array_Ok:
  assumes "list_all2 (\<lambda>v t. enc v = EOk (tree_bytes t)) vs ts" and "length vs \<le> 65535"
  shows "enc_array enc vs = EOk (tree_bytes (Seq ts))"
  using enc_elems_Ok [OF assms(1)] assms by (simp add: enc_array_def list_all2_lengthD)

lemma encode_basic: "is_leaf v \<Longrightarrow> encode h (Suc n) level seen v = EOk (basic_bytes v)"
  by (auto simp: is_leaf_def basic_bytes_def)

lemma encode_struct:
  "encode h (Suc n) level seen (VStruct vs) = enc_kind (encode h n level seen) h (VStruct vs)"
  by simp

lemma encode_named:
  "enc_basic v = None \<Longrightarrow> encode h (Suc n) level seen (VNamed v) = encode h (Suc n) level seen v"
  by (auto simp: enc_kind_def split: gval.split)

text \<open>
  The cycle check never fires on a tree: what is on the path is bigger than what is below.
\<close>

definition path_ok :: "heap \<Rightarrow> nat list \<Rightarrow> tree \<Rightarrow> bool" where
  "path_ok h seen t \<longleftrightarrow> (\<forall>q\<in>set seen. \<exists>u. rep h 0 0 (h_objs h ! q) u \<and> size t \<le> size u)"

lemma path_ok_smaller: "path_ok h seen t \<Longrightarrow> size u \<le> size t \<Longrightarrow> path_ok h seen u"
  unfolding path_ok_def by (meson order_trans)

lemma path_ok_child:
  "path_ok h seen (Node ts) \<Longrightarrow> g \<in> set ts \<Longrightarrow> path_ok h seen (snd g)"
  "path_ok h seen (Seq us) \<Longrightarrow> u \<in> set us \<Longrightarrow> path_ok h seen u"
proof -
  assume "path_ok h seen (Node ts)" "g \<in> set ts"
  moreover have "size (snd g) \<le> size (Node ts)" if "g \<in> set ts" for g
    using that by (induction ts) (auto simp: size_prod_def)
  ultimately show "path_ok h seen (snd g)" by (blast intro: path_ok_smaller)
next
  assume "path_ok h seen (Seq us)" "u \<in> set us"
  moreover have "size u \<le> size (Seq us)" if "u \<in> set us" for u
    using that by (induction us) auto
  ultimately show "path_ok h seen u" by (blast intro: path_ok_smaller)
qed

text \<open>\<open>encodes h seen v t\<close>: enough fuel encodes \<open>v\<close> as the bytes of \<open>t\<close>, at any level of the path.\<close>

definition encodes :: "heap \<Rightarrow> nat list \<Rightarrow> gval \<Rightarrow> tree \<Rightarrow> bool" where
  "encodes h seen v t \<longleftrightarrow> enough (\<lambda>n. \<forall>level. encode h n level seen v = EOk (tree_bytes t))"

lemma encodes_SucI:
  "enough (\<lambda>n. \<forall>level. encode h (Suc n) level seen v = EOk (tree_bytes t)) \<Longrightarrow> encodes h seen v t"
  unfolding encodes_def by (rule enough_Suc)

lemma encodes_SucD:
  "encodes h seen v t \<Longrightarrow> enough (\<lambda>n. \<forall>level. encode h (Suc n) level seen v = EOk (tree_bytes t))"
  unfolding encodes_def by (rule eventually_sequentially_Suc [THEN iffD2])

lemma encodes_struct:
  assumes "list_all2 (\<lambda>f g. fst f = fst g \<and> exported (fst f) \<and> encodes h seen (snd f) (snd g)) (kept vs) ts"
  shows "encodes h seen (VStruct vs) (Node ts)"
proof (rule encodes_SucI)
  let ?Q = "\<lambda>f g n. fst f = fst g \<and> exported (fst f) \<and>
    (\<forall>level. encode h n level seen (snd f) = EOk (tree_bytes (snd g)))"
  have "list_all2 (\<lambda>f g. enough (?Q f g)) (kept vs) ts"
    using assms by (rule list_all2_mono) (auto simp: encodes_def eventually_conj_iff)
  then have "enough (\<lambda>n. list_all2 (\<lambda>f g. ?Q f g n) (kept vs) ts)" by (rule enough_list_all2)
  then show "enough (\<lambda>n. \<forall>level. encode h (Suc n) level seen (VStruct vs) = EOk (tree_bytes (Node ts)))"
  proof (rule eventually_mono, intro allI)
    fix n level
    assume "list_all2 (\<lambda>f g. ?Q f g n) (kept vs) ts"
    then have "list_all2 (\<lambda>f g. fst f = fst g \<and> exported (fst f) \<and>
        encode h n level seen (snd f) = EOk (tree_bytes (snd g))) (kept vs) ts"
      by (rule list_all2_mono) blast
    then show "encode h (Suc n) level seen (VStruct vs) = EOk (tree_bytes (Node ts))"
      unfolding encode_struct by (simp add: enc_kind_def enc_fields_Ok)
  qed
qed

lemma encodes_slice:
  assumes "list_all2 (encodes h seen) (take n (h_arrs h ! i)) ts" and "n \<le> 65535"
  shows "encodes h seen (VSlice (Some i) n c) (Seq ts)"
proof (rule encodes_SucI)
  let ?vs = "take n (h_arrs h ! i)"
  let ?Q = "\<lambda>v t n. \<forall>level. encode h n level seen v = EOk (tree_bytes t)"
  have "list_all2 (\<lambda>v t. enough (?Q v t)) ?vs ts"
    using assms(1) by (rule list_all2_mono) (simp add: encodes_def)
  then have "enough (\<lambda>n. list_all2 (\<lambda>v t. ?Q v t n) ?vs ts)" by (rule enough_list_all2)
  then show "enough (\<lambda>m. \<forall>level. encode h (Suc m) level seen (VSlice (Some i) n c) = EOk (tree_bytes (Seq ts)))"
  proof (rule eventually_mono, intro allI)
    fix m level
    assume "list_all2 (\<lambda>v t. ?Q v t m) ?vs ts"
    then have "list_all2 (\<lambda>v t. encode h m level seen v = EOk (tree_bytes t)) ?vs ts"
      by (rule list_all2_mono) blast
    then have "enc_array (encode h m level seen) ?vs = EOk (tree_bytes (Seq ts))"
      by (rule enc_array_Ok) (use assms(2) in simp)
    then show "encode h (Suc m) level seen (VSlice (Some i) n c) = EOk (tree_bytes (Seq ts))"
      by (simp add: enc_kind_def slice_elems_def)
  qed
qed

lemma encodes_ptr:
  assumes "encodes h seen (h_objs h ! q) (Node ts)" and "encodes h (q # seen) (h_objs h ! q) (Node ts)"
    and "h_objs h ! q = VStruct vs" and "q \<notin> set seen"
  shows "encodes h seen (VPtr (Some q)) (Ref (Node ts))"
proof (rule encodes_SucI)
  have "enough (\<lambda>n. (\<forall>level. encode h n level seen (VStruct vs) = EOk (tree_bytes (Node ts))) \<and>
      (\<forall>level. encode h n level (q # seen) (VStruct vs) = EOk (tree_bytes (Node ts))))"
    using assms(1,2) by (simp add: assms(3) encodes_def eventually_conj)
  then have "enough (\<lambda>n. (\<forall>level. encode h (Suc n) level seen (VStruct vs) = EOk (tree_bytes (Node ts))) \<and>
      (\<forall>level. encode h (Suc n) level (q # seen) (VStruct vs) = EOk (tree_bytes (Node ts))))"
    by (rule eventually_sequentially_Suc [THEN iffD2])
  then show "enough (\<lambda>n. \<forall>level. encode h (Suc n) level seen (VPtr (Some q)) = EOk (tree_bytes (Ref (Node ts))))"
    by (rule eventually_mono) (use assms(3,4) in \<open>auto simp: Let_def\<close>)
qed

lemma rep_encodes: "rep h p a v t \<Longrightarrow> path_ok h seen t \<Longrightarrow> encodes h seen v t"
proof (induction arbitrary: seen rule: rep.induct)
  case (RLeaf v)
  then show ?case by (intro encodes_SucI) (simp add: encode_basic del: encode.simps)
next
  case (RStruct vs ts)
  show ?case
  proof (rule encodes_struct, rule list.rel_mono_strong [OF RStruct.IH])
    fix f g
    assume "g \<in> set ts"
    with RStruct.prems have "path_ok h seen (snd g)" by (rule path_ok_child(1))
    then show "fst f = fst g \<and> exported (fst f) \<and> rep h p a (snd f) (snd g) \<and>
        (\<forall>seen. path_ok h seen (snd g) \<longrightarrow> encodes h seen (snd f) (snd g)) \<Longrightarrow>
      fst f = fst g \<and> exported (fst f) \<and> encodes h seen (snd f) (snd g)" by blast
  qed
next
  case (RNil c)
  show ?case by (rule encodes_SucI) (simp add: enc_kind_def slice_elems_def enc_array_def)
next
  case (RSlice i n ts c)
  show ?case
  proof (rule encodes_slice [OF _ RSlice.hyps(4)], rule list.rel_mono_strong [OF RSlice.IH])
    fix v t
    assume "t \<in> set ts"
    with RSlice.prems have "path_ok h seen t" by (rule path_ok_child(2))
    then show "rep h p a v t \<and> (\<forall>seen. path_ok h seen t \<longrightarrow> encodes h seen v t) \<Longrightarrow> encodes h seen v t"
      by blast
  qed
next
  case (RPtr q ts)
  have "rep h 0 0 (h_objs h ! q) (Node ts)" using RPtr.hyps(3) by (rule rep_mono) simp_all
  moreover from this rep_unique have q: "q \<notin> set seen"
    using RPtr.prems by (fastforce simp: path_ok_def)
  moreover have "path_ok h seen (Node ts)" using RPtr.prems by (rule path_ok_smaller) simp
  ultimately have "path_ok h seen' (Node ts)" if "seen' = seen \<or> seen' = q # seen" for seen'
    using that unfolding path_ok_def by (metis order_refl set_ConsD)
  then have "encodes h seen (h_objs h ! q) (Node ts)" "encodes h (q # seen) (h_objs h ! q) (Node ts)"
    using RPtr.IH by blast+
  moreover obtain vs where "h_objs h ! q = VStruct vs" using RPtr.hyps(3) by (rule rep_NodeE) simp
  ultimately show ?case using q by (rule encodes_ptr)
next
  case (RNamed v ts)
  from RNamed.hyps have v: "enc_basic v = None" by (cases rule: rep.cases) simp_all
  from encodes_SucD [OF RNamed.IH [OF RNamed.prems]] show ?case
    by (intro encodes_SucI) (simp only: encode_named [OF v])
qed

lemma encode_rep:
  "rep h p a v t \<Longrightarrow> path_ok h seen t \<Longrightarrow>
    enough (\<lambda>n. \<forall>level. encode h n level seen v = EOk (tree_bytes t))"
  by (drule (1) rep_encodes) (simp only: encodes_def)

section \<open>Types without aliasing\<close>

text \<open>
  A type is written as the decoder sees it: \<open>plain\<close> types hold their whole value; \<open>flat\<close> types
  are built from these and structs, and are the element types of the slices that can be
  decoded faithfully; \<open>has_ty\<close> gives the trees of a type.
\<close>

definition plain :: "ty \<Rightarrow> bool" where
  "plain t \<longleftrightarrow> (case t of TSlice et \<Rightarrow> et = TByte | TPtr _ \<Rightarrow> False | TStruct _ \<Rightarrow> False
     | TNamed _ \<Rightarrow> False | TRef _ \<Rightarrow> False | _ \<Rightarrow> True)"

definition leaf_of :: "ty \<Rightarrow> gval \<Rightarrow> bool" where
  "leaf_of t l \<longleftrightarrow> is_leaf l \<and>
     (case l of
        VBool _ \<Rightarrow> t = TBool | VByte _ \<Rightarrow> t = TByte | VInt16 _ \<Rightarrow> t = TInt16 | VUint16 _ \<Rightarrow> t = TUint16
      | VInt32 _ \<Rightarrow> t = TInt32 | VUint32 _ \<Rightarrow> t = TUint32 | VFloat32 _ \<Rightarrow> t = TFloat32
      | VFloat64 _ \<Rightarrow> t = TFloat64 | VString _ \<Rightarrow> t = TString | VBytes _ \<Rightarrow> t = TSlice TByte
      | _ \<Rightarrow> False)"

inductive flat :: "tenv \<Rightarrow> ty \<Rightarrow> bool" for env where
  FPlain: "plain t \<Longrightarrow> flat env t"
| FStruct: "\<forall>f\<in>set (kept fs). flat env (snd f) \<Longrightarrow> flat env (TStruct fs)"
| FRef: "map_of env x = Some fs \<Longrightarrow> flat env (TStruct fs) \<Longrightarrow> flat env (TRef x)"

inductive has_ty :: "tenv \<Rightarrow> ty \<Rightarrow> tree \<Rightarrow> bool" for env where
  HLeaf: "leaf_of t l \<Longrightarrow> has_ty env t (Leaf l)"
| HStruct: "list_all2 (\<lambda>f g. fst f = fst g \<and> exported (fst f) \<and> has_ty env (snd f) (snd g)) (kept fs) ts
    \<Longrightarrow> has_ty env (TStruct fs) (Node ts)"
| HRef: "map_of env x = Some fs \<Longrightarrow> has_ty env (TStruct fs) (Node ts) \<Longrightarrow> has_ty env (TRef x) (Node ts)"
| HPtr: "has_ty env t (Node ts) \<Longrightarrow> has_ty env (TPtr t) (Ref (Node ts))"
| HSlice: "et \<noteq> TByte \<Longrightarrow> flat env et \<Longrightarrow> length ts \<le> 65535 \<Longrightarrow> list_all (has_ty env et) ts
    \<Longrightarrow> has_ty env (TSlice et) (Seq ts)"
| HNamed: "has_ty env t (Seq ts) \<Longrightarrow> has_ty env (TNamed t) (Seq ts)"

text \<open>A blank location: its pointers and slices are nil, as in a zero value.\<close>

inductive blank :: "tenv \<Rightarrow> ty \<Rightarrow> gval \<Rightarrow> bool" for env where
  BPlain: "plain t \<Longrightarrow> blank env t v"
| BSlice: "blank env (TSlice et) (VSlice None 0 0)"
| BPtr: "blank env (TPtr t) (VPtr None)"
| BStruct: "list_all2 (\<lambda>f g. fst f = fst g \<and> (skipped (fst f) \<or> blank env (snd f) (snd g))) fs vs
    \<Longrightarrow> blank env (TStruct fs) (VStruct vs)"
| BRef: "map_of env x = Some fs \<Longrightarrow> blank env (TStruct fs) v \<Longrightarrow> blank env (TRef x) v"
| BUndeclared: "map_of env x = None \<Longrightarrow> blank env (TRef x) v"
| BNamed: "blank env t v \<Longrightarrow> blank env (TNamed t) (VNamed v)"

inductive_simps blank_struct: "blank env (TStruct fs) v"
inductive_simps blank_slice: "blank env (TSlice et) v"
inductive_simps blank_ptr: "blank env (TPtr t) v"
inductive_simps blank_ref: "blank env (TRef x) v"
inductive_simps blank_named: "blank env (TNamed t) v"
inductive_simps flat_struct: "flat env (TStruct fs)"
inductive_simps flat_ref: "flat env (TRef x)"
inductive_simps flat_slice: "flat env (TSlice et)"
inductive_simps flat_ptr: "flat env (TPtr t)"
inductive_simps flat_named: "flat env (TNamed t)"

lemma plain_simps [simp]:
  "\<not> plain (TPtr t)" "\<not> plain (TStruct fs)" "\<not> plain (TNamed t)" "\<not> plain (TRef x)"
  "plain (TSlice et) \<longleftrightarrow> et = TByte" "plain TBool" "plain TByte" "plain TInt16" "plain TUint16"
  "plain TInt32" "plain TUint32" "plain TFloat32" "plain TFloat64" "plain TString" "plain TInt8"
  "plain (TOther x)"
  by (simp_all add: plain_def)

lemma zero_fields_blank:
  assumes "zero_fields z fs = Some vs" and "\<And>t v. z t = Some v \<Longrightarrow> blank env t v"
  shows "list_all2 (\<lambda>f g. fst f = fst g \<and> (skipped (fst f) \<or> blank env (snd f) (snd g))) fs vs"
  using assms(1) by (induction fs arbitrary: vs) (fastforce split: option.splits dest: assms(2))+

lemma zero_blank: "zero env n t = Some v \<Longrightarrow> blank env t v"
proof (induction n arbitrary: t v)
  case (Suc n)
  note z = zero_fields_blank [of "zero env n", OF _ Suc.IH]
  show ?case
    using Suc.prems
    by (cases t) (auto simp: blank_struct blank_slice blank_ptr blank_ref blank_named
        split: if_splits option.splits dest: z intro: Suc.IH BPlain)
qed simp

lemma zero_fields_mono:
  assumes "zero_fields z fs = Some vs" and "\<And>t v. z t = Some v \<Longrightarrow> z' t = Some v"
  shows "zero_fields z' fs = Some vs"
  using assms(1)
  by (induction fs arbitrary: vs) (fastforce split: option.splits dest: assms(2))+

lemma zero_Suc: "zero env n t = Some v \<Longrightarrow> zero env (Suc n) t = Some v"
proof (induction n arbitrary: t v)
  case (Suc n)
  note z = zero_fields_mono [of "zero env n", OF _ Suc.IH]
  show ?case
    using Suc.prems
    by (cases t) (auto simp del: zero.simps(2) simp: zero.simps(2) [of env "Suc n"]
        zero.simps(2) [of env n] split: if_splits option.splits dest: z Suc.IH)
qed simp

lemma zero_mono: "zero env n t = Some v \<Longrightarrow> n \<le> m \<Longrightarrow> zero env m t = Some v"
  by (induction m) (auto simp: le_Suc_eq zero_Suc simp del: zero.simps)

section \<open>Decoding the bytes of a tree\<close>

definition starts :: "bytes \<Rightarrow> dst \<Rightarrow> bytes \<Rightarrow> bool" where
  "starts data s b \<longleftrightarrow> (\<exists>r. drop (d_off s) data = b @ r)"

lemma put_ne [simp]: "put_u16 a \<noteq> []" "put_u32 b \<noteq> []" "put_u64 c \<noteq> []"
  by (simp_all add: put_u16_def put_u32_def put_u64_def)

lemma starts_append:
  "starts data s (b @ c) \<Longrightarrow> starts data s b"
  "starts data s (b @ c) \<Longrightarrow> d_off s' = d_off s + length b \<Longrightarrow> starts data s' c"
proof -
  assume "starts data s (b @ c)"
  then obtain r where r: "drop (d_off s) data = b @ c @ r" by (auto simp: starts_def)
  then show "starts data s b" by (auto simp: starts_def)
  assume "d_off s' = d_off s + length b"
  then have "drop (d_off s') data = drop (length b) (drop (d_off s) data)" by (simp add: add.commute)
  with r show "starts data s' c" by (auto simp: starts_def)
qed

lemma starts_length: "starts data s b \<Longrightarrow> b = [] \<or> d_off s + length b \<le> length data"
proof -
  assume "starts data s b"
  then have "length b \<le> length data - d_off s" by (metis starts_def length_append length_drop le_add1)
  then show ?thesis by (cases b) auto
qed

lemma starts_take: "starts data s b \<Longrightarrow> take (length b) (rest data s) = b"
  by (auto simp: starts_def rest_def)

lemma dec_fixed_Ok:
  assumes "starts data s b" and "b \<noteq> []"
  shows "dec_fixed e (length b) mk data v s = DOk (mk b) (skip (length b) s)"
  using starts_length [OF assms(1)] starts_take [OF assms(1)] assms(2) by (simp add: dec_fixed_def)

lemma dec_string_Ok:
  assumes "starts data s (b @ [0])" and "0 \<notin> set b"
  shows "dec_string data v s = DOk (VString b) (skip (length b + 1) s)"
proof -
  from assms(1) obtain r where r: "rest data s = b @ 0 # r" by (auto simp: starts_def rest_def)
  with assms(2) have "index_zero (rest data s) = Some (length b)"
    by (simp add: index_zero_def takeWhile_append)
  then show ?thesis using r starts_length [OF assms(1)] by (simp add: dec_string_def)
qed

lemma dec_bytes_Ok:
  assumes "starts data s (put_u16 (word_of_nat (length b)) @ b)" and "length b \<le> 65535"
  shows "dec_bytes data v s = DOk (VBytes b) (skip (length b + 2) s)"
proof -
  let ?p = "put_u16 (word_of_nat (length b))"
  from starts_append(1) [OF assms(1)] have p: "take 2 (rest data s) = ?p" "d_off s + 2 \<le> length data"
    using starts_take [of data s ?p] starts_length [of data s ?p] by auto
  have b: "starts data (skip 2 s) b"
    using assms(1) by (rule starts_append(2)) (simp add: skip_def)
  have "unat (word_of_nat (length b) :: u16) = length b"
    using assms(2) by (simp add: unat_of_nat)
  then show ?thesis
    using p starts_take [OF b] starts_length [OF b]
    by (auto simp: dec_bytes_def Let_def skip_def)
qed

lemma skip_off [simp]: "d_off (skip k s) = d_off s + k" "d_heap (skip k s) = d_heap s"
  by (simp_all add: skip_def)

lemma dec_basic_leaf:
  assumes "leaf_of t l" and "starts data s (basic_bytes l)"
  shows "dec_basic data t v s = Some (DOk l (skip (length (basic_bytes l)) s))"
proof -
  note f = dec_fixed_Ok [OF assms(2)]
  note defs = leaf_of_def dec_basic_def basic_bytes_def enc_basic_def
  from assms(1) have leaf: "is_leaf l" by (simp add: leaf_of_def)
  show ?thesis
  proof (cases l)
    case (VString b)
    then have "0 \<notin> set b" using leaf by (auto simp: is_leaf_def enc_basic_def split: if_splits)
    with VString assms dec_string_Ok [of data s b v] show ?thesis by (simp add: defs)
  next
    case (VBytes b)
    then have "length b \<le> 65535" using leaf by (auto simp: is_leaf_def enc_basic_def split: if_splits)
    with VBytes assms dec_bytes_Ok [of data s b v] show ?thesis by (simp add: defs)
  qed (use assms f in \<open>simp_all add: defs\<close>)
qed

text \<open>
  \<open>decodes env n t T\<close>: with fuel \<open>n\<close>, decoding the bytes of \<open>T\<close> into a blank location of type
  \<open>t\<close> consumes exactly these bytes, leaves what was in the heap alone, and yields a value that
  is \<open>T\<close> and made of new objects only. A flat value needs no heap and stays a blank location.
\<close>

definition fresh_from :: "heap \<Rightarrow> heap \<Rightarrow> gval \<Rightarrow> tree \<Rightarrow> bool" where
  "fresh_from h h' v t \<longleftrightarrow>
     same_above 0 0 h h' \<and> rep h' (length (h_objs h)) (length (h_arrs h)) v t"

definition decodes :: "tenv \<Rightarrow> nat \<Rightarrow> ty \<Rightarrow> tree \<Rightarrow> bool" where
  "decodes env n t u \<longleftrightarrow>
     (\<forall>grow data v s. blank env t v \<and> starts data s (tree_bytes u) \<longrightarrow>
        (\<exists>v' s'. decode env grow data n t v s = DOk v' s' \<and>
           d_off s' = d_off s + length (tree_bytes u) \<and> fresh_from (d_heap s) (d_heap s') v' u \<and>
           (flat env t \<longrightarrow> blank env t v' \<and> d_heap s' = d_heap s \<and> (\<forall>h p a. rep h p a v' u))))"

lemma same_above_refl [simp]: "same_above p a h h"
  by (simp add: same_above_def)

lemma same_above_trans: "same_above 0 0 h h' \<Longrightarrow> same_above 0 0 h' h'' \<Longrightarrow> same_above 0 0 h h''"
  unfolding same_above_def by auto

lemma same_above_mono: "same_above 0 0 h h' \<Longrightarrow> same_above p a h h'"
  by (simp add: same_above_def)

definition field_blank :: "tenv \<Rightarrow> string \<times> ty \<Rightarrow> string \<times> gval \<Rightarrow> bool" where
  "field_blank env f g \<longleftrightarrow> fst f = fst g \<and> (skipped (fst f) \<or> blank env (snd f) (snd g))"

definition field_rep :: "heap \<Rightarrow> nat \<Rightarrow> nat \<Rightarrow> string \<times> gval \<Rightarrow> string \<times> tree \<Rightarrow> bool" where
  "field_rep h p a f g \<longleftrightarrow> fst f = fst g \<and> exported (fst f) \<and> rep h p a (snd f) (snd g)"

definition flat_fields :: "tenv \<Rightarrow> (string \<times> ty) list \<Rightarrow> bool" where
  "flat_fields env fs \<longleftrightarrow> (\<forall>f\<in>set (kept fs). flat env (snd f))"

lemma field_simps [simp]:
  "field_blank env (x, t) (y, v) \<longleftrightarrow> x = y \<and> (skipped x \<or> blank env t v)"
  "field_rep h p a (x, v) (y, u) \<longleftrightarrow> x = y \<and> exported x \<and> rep h p a v u"
  by (auto simp: field_blank_def field_rep_def)

lemma blank_struct': "blank env (TStruct fs) v \<longleftrightarrow> (\<exists>vs. v = VStruct vs \<and> list_all2 (field_blank env) fs vs)"
  by (auto simp: blank_struct field_blank_def [abs_def])

lemma rep_struct': "list_all2 (field_rep h p a) (kept vs) ts \<Longrightarrow> rep h p a (VStruct vs) (Node ts)"
  by (rule RStruct) (simp add: field_rep_def [abs_def])

lemma fields_rep_frame:
  assumes "list_all2 (field_rep h p a) vs ts" and "same_above p a h h'" and "p' \<le> p" and "a' \<le> a"
  shows "list_all2 (field_rep h' p' a') vs ts"
  using assms(1)
  by (rule list_all2_mono) (use assms in \<open>auto simp: field_rep_def intro: rep_mono rep_frame\<close>)

lemma kept_simps [simp]:
  "kept [] = []" "kept ((x, t) # fs) = (if skipped x then kept fs else (x, t) # kept fs)"
  by (simp_all add: kept_def)

lemma dec_fields_Ok:
  assumes "list_all2 (\<lambda>f g. fst f = fst g \<and> exported (fst f) \<and> decodes env n (snd f) (snd g)) (kept fs) ts"
    and "list_all2 (field_blank env) fs vs"
    and "starts data s (concat (map (\<lambda>g. tree_bytes (snd g)) ts))"
  shows "\<exists>vs' s'. dec_fields (decode env grow data n) fs vs s = DOk vs' s' \<and>
    d_off s' = d_off s + length (concat (map (\<lambda>g. tree_bytes (snd g)) ts)) \<and>
    same_above 0 0 (d_heap s) (d_heap s') \<and>
    list_all2 (field_rep (d_heap s') (length (h_objs (d_heap s))) (length (h_arrs (d_heap s)))) (kept vs') ts \<and>
    (flat_fields env fs \<longrightarrow> list_all2 (field_blank env) fs vs' \<and>
       d_heap s' = d_heap s \<and> (\<forall>h p a. list_all2 (field_rep h p a) (kept vs') ts))"
  using assms
proof (induction fs arbitrary: vs ts s)
  case Nil
  then show ?case by simp
next
  case (Cons f fs)
  obtain x t where f: "f = (x, t)" by fastforce
  from Cons.prems(2) obtain g vs0 where g: "vs = g # vs0" "field_blank env f g"
    and blanks: "list_all2 (field_blank env) fs vs0"
    by (auto simp: list_all2_Cons1)
  then obtain v where vs: "vs = (x, v) # vs0" and v: "skipped x \<or> blank env t v"
    using f by (cases g) (auto simp: field_blank_def)
  show ?case
  proof (cases "skipped x")
    case True
    with Cons.prems(1) f have "list_all2 (\<lambda>f g. fst f = fst g \<and> exported (fst f) \<and>
        decodes env n (snd f) (snd g)) (kept fs) ts" by simp
    moreover have "flat_fields env (f # fs) = flat_fields env fs"
      using True f by (simp add: flat_fields_def)
    ultimately show ?thesis
      using Cons.IH [OF _ blanks Cons.prems(3)] True f vs by fastforce
  next
    case False
    with Cons.prems(1) f obtain u ts0 where ts: "ts = (x, u) # ts0" "exported x"
      and dec: "decodes env n t u"
      and rest_ts: "list_all2 (\<lambda>f g. fst f = fst g \<and> exported (fst f) \<and> decodes env n (snd f) (snd g)) (kept fs) ts0"
      by (auto simp: list_all2_Cons1)
    from Cons.prems(3) ts
    have start: "starts data s (tree_bytes u @ concat (map (\<lambda>g. tree_bytes (snd g)) ts0))" by simp
    from dec starts_append(1) [OF start] v False obtain v' s1 where
      d: "decode env grow data n t v s = DOk v' s1" "d_off s1 = d_off s + length (tree_bytes u)"
        "fresh_from (d_heap s) (d_heap s1) v' u"
        "flat env t \<Longrightarrow> blank env t v' \<and> d_heap s1 = d_heap s \<and> (\<forall>h p a. rep h p a v' u)"
      unfolding decodes_def by blast
    from Cons.IH [OF rest_ts blanks starts_append(2) [OF start d(2)]] obtain vs' s' where
      r: "dec_fields (decode env grow data n) fs vs0 s1 = DOk vs' s'"
        "d_off s' = d_off s1 + length (concat (map (\<lambda>g. tree_bytes (snd g)) ts0))"
        "same_above 0 0 (d_heap s1) (d_heap s')"
        "list_all2 (field_rep (d_heap s') (length (h_objs (d_heap s1))) (length (h_arrs (d_heap s1)))) (kept vs') ts0"
        "flat_fields env fs \<Longrightarrow> list_all2 (field_blank env) fs vs' \<and>
           d_heap s' = d_heap s1 \<and> (\<forall>h p a. list_all2 (field_rep h p a) (kept vs') ts0)"
      by blast
    from d(3) have same: "same_above 0 0 (d_heap s) (d_heap s1)"
      and rep: "rep (d_heap s1) (length (h_objs (d_heap s))) (length (h_arrs (d_heap s))) v' u"
      by (simp_all add: fresh_from_def)
    from rep r(3) have "rep (d_heap s') (length (h_objs (d_heap s))) (length (h_arrs (d_heap s))) v' u"
      by (blast intro: rep_frame same_above_mono)
    moreover have "list_all2 (field_rep (d_heap s') (length (h_objs (d_heap s)))
        (length (h_arrs (d_heap s)))) (kept vs') ts0"
      using same by (intro fields_rep_frame [OF r(4) same_above_refl]) (simp_all add: same_above_def)
    moreover have "flat_fields env (f # fs) \<longleftrightarrow> flat env t \<and> flat_fields env fs"
      using False f by (simp add: flat_fields_def)
    ultimately show ?thesis
      using d(1,2,4) r(1,2,5) same_above_trans [OF same r(3)] False f vs ts by auto
  qed
qed

text \<open>Slices: the loop of \<open>decodeArray\<close> over a flat element type.\<close>

definition all_rep :: "gval \<Rightarrow> tree \<Rightarrow> bool" where
  "all_rep v u \<longleftrightarrow> (\<forall>h p a. rep h p a v u)"

definition slice_ok :: "nat \<Rightarrow> heap \<Rightarrow> gval \<Rightarrow> tree list \<Rightarrow> bool" where
  "slice_ok a h sl us \<longleftrightarrow>
     (sl = VSlice None 0 0 \<and> us = [] \<or>
      (\<exists>i cap. sl = VSlice (Some i) (length us) cap \<and> a \<le> i \<and> i < length (h_arrs h) \<and>
         length us \<le> length (h_arrs h ! i) \<and> cap \<le> length (h_arrs h ! i) \<and>
         list_all2 all_rep (take (length us) (h_arrs h ! i)) us))"

definition below :: "nat \<Rightarrow> heap \<Rightarrow> heap \<Rightarrow> bool" where
  "below a h h' \<longleftrightarrow> h_objs h' = h_objs h \<and> length (h_arrs h) \<le> length (h_arrs h') \<and>
     (\<forall>i<a. h_arrs h' ! i = h_arrs h ! i)"

lemma append1_slice:
  assumes "slice_ok a h sl us" and "a \<le> length (h_arrs h)" and "all_rep x u"
  shows "\<exists>sl' h'. append1 grow z sl x h = (sl', h') \<and> slice_ok a h' sl' (us @ [u]) \<and> below a h h'"
proof -
  from assms(1) consider "sl = VSlice None 0 0" "us = []"
    | i cap where "sl = VSlice (Some i) (length us) cap" "a \<le> i" "i < length (h_arrs h)"
        "length us \<le> length (h_arrs h ! i)" "cap \<le> length (h_arrs h ! i)"
        "list_all2 all_rep (take (length us) (h_arrs h ! i)) us"
    by (auto simp: slice_ok_def)
  then show ?thesis
  proof cases
    case 1
    with assms show ?thesis
      by (auto simp: append1_def slice_ok_def below_def Let_def nth_append)
  next
    case (2 i cap)
    show ?thesis
    proof (cases "length us + 1 \<le> cap")
      case True
      with 2 assms show ?thesis
        by (auto simp: append1_def slice_ok_def below_def take_Suc_conv_app_nth
            intro!: list_all2_appendI)
    next
      case False
      with 2 assms show ?thesis
        by (auto simp: append1_def slice_ok_def below_def Let_def nth_append intro!: list_all2_appendI)
    qed
  qed
qed

lemma dec_loop_Ok:
  assumes "flat env et" and "list_all (decodes env n et) ts" and "blank env et vv"
    and "starts data s (concat (map tree_bytes ts))"
    and "slice_ok a (d_heap s) sl us" and "a \<le> length (h_arrs (d_heap s))"
  shows "\<exists>sl' s'. dec_loop grow (decode env grow data n et) z (length ts) i vv sl s = DOk sl' s' \<and>
    d_off s' = d_off s + length (concat (map tree_bytes ts)) \<and>
    slice_ok a (d_heap s') sl' (us @ ts) \<and> below a (d_heap s) (d_heap s')"
  using assms(2-6)
proof (induction ts arbitrary: i vv s sl us)
  case Nil
  then show ?case by (simp add: below_def)
next
  case (Cons u ts)
  from Cons.prems(3) have start: "starts data s (tree_bytes u @ concat (map tree_bytes ts))" by simp
  from Cons.prems(1) have "decodes env n et u" by simp
  with starts_append(1) [OF start] Cons.prems(2) assms(1) obtain v' s1 where
    d: "decode env grow data n et vv s = DOk v' s1" "d_off s1 = d_off s + length (tree_bytes u)"
      "blank env et v'" "d_heap s1 = d_heap s" "all_rep v' u"
    unfolding decodes_def all_rep_def by blast
  obtain sl1 h1 where a1: "append1 grow z sl v' (d_heap s) = (sl1, h1)"
    "slice_ok a h1 sl1 (us @ [u])" "below a (d_heap s) h1"
    using append1_slice [OF Cons.prems(4,5) d(5)] by blast
  let ?s = "s1\<lparr>d_heap := h1\<rparr>"
  have "starts data ?s (concat (map tree_bytes ts))"
    using start by (rule starts_append(2)) (simp add: d(2))
  moreover have "a \<le> length (h_arrs (d_heap ?s))" using a1(3) Cons.prems(5) by (simp add: below_def)
  moreover from Cons.prems(1) have "list_all (decodes env n et) ts" by simp
  ultimately obtain sl' s' where
    "dec_loop grow (decode env grow data n et) z (length ts) (i + 1) v' sl1 ?s = DOk sl' s'"
    "d_off s' = d_off ?s + length (concat (map tree_bytes ts))"
    "slice_ok a (d_heap s') sl' ((us @ [u]) @ ts)" "below a h1 (d_heap s')"
    using Cons.IH [of v' ?s sl1 "us @ [u]" "i + 1"] d(3) a1(2) by auto
  with d a1 show ?case by (auto simp: below_def)
qed

lemma slice_ok_rep: "slice_ok a h sl us \<Longrightarrow> length us \<le> 65535 \<Longrightarrow> rep h p a sl (Seq us)"
  unfolding slice_ok_def
  by (auto intro!: RNil RSlice elim!: list_all2_mono simp: all_rep_def)

lemma dec_map_Ok [simp]: "dec_map f r = DOk w s \<longleftrightarrow> (\<exists>v. r = DOk v s \<and> w = f v)"
  by (cases r) auto

lemma dec_basic_None [simp]:
  "dec_basic data (TStruct fs) v s = None" "dec_basic data (TRef x) v s = None"
  "dec_basic data (TPtr t) v s = None" "dec_basic data (TNamed t) v s = None"
  "et \<noteq> TByte \<Longrightarrow> dec_basic data (TSlice et) v s = None"
  by (simp_all add: dec_basic_def)

lemma rename_as_same [simp]:
  "rename_as (VStruct vs) w = w" "rename_as (VSlice i n c) w = w" "rename_as (VPtr q) w = w"
  by simp_all

lemma decode_struct:
  "decode env grow data (Suc n) (TStruct fs) (VStruct vs) s =
    dec_map VStruct (dec_fields (decode env grow data n) fs vs s)"
  by (cases "dec_fields (decode env grow data n) fs vs s") (simp_all add: dec_kind_def)

lemma decode_ref:
  "map_of env x = Some fs \<Longrightarrow>
    decode env grow data (Suc n) (TRef x) v s = decode env grow data (Suc n) (TStruct fs) v s"
  by (simp add: dec_kind_def)

lemma decode_slice:
  "et \<noteq> TByte \<Longrightarrow> decode env grow data (Suc n) (TSlice et) (VSlice i m c) s =
    dec_array grow (decode env grow data n et) (zero env n et) data (VSlice i m c) s"
  by (cases "dec_array grow (decode env grow data n et) (zero env n et) data (VSlice i m c) s")
    (simp_all add: dec_kind_def)

lemma dec_map_comp: "dec_map f (dec_map g r) = dec_map (\<lambda>v. f (g v)) r"
  by (cases r) simp_all

lemma decode_named:
  assumes "dec_basic data t v s = None" and "\<nexists>t'. underlying env t = TPtr t'"
  shows "decode env grow data (Suc n) (TNamed t) (VNamed v) s =
    dec_map VNamed (decode env grow data (Suc n) t v s)"
proof -
  have "rename_as (VNamed v) = (\<lambda>w. VNamed (rename_as v w))" by (simp add: fun_eq_iff)
  with assms show ?thesis by (auto simp: dec_kind_def dec_map_comp split: ty.split)
qed

lemma decode_ptr:
  assumes "zero env n t = Some z" and "dec_basic data t z (s\<lparr>d_heap := h\<rparr>) = None"
    and "\<nexists>t'. underlying env t = TPtr t'"
    and "h = (d_heap s)\<lparr>h_objs := h_objs (d_heap s) @ [z]\<rparr>"
  shows "decode env grow data (Suc n) (TPtr t) (VPtr None) s =
    dec_store (VPtr None) (length (h_objs (d_heap s))) (decode env grow data (Suc n) t z (s\<lparr>d_heap := h\<rparr>))"
  using assms by (auto simp: dec_object_def split: ty.split)

lemma has_ty_NodeD:
  "has_ty env t (Node ts) \<Longrightarrow> dec_basic data t v s = None \<and> (\<nexists>t'. underlying env t = TPtr t') \<and>
    (\<forall>v. blank env t v \<longrightarrow> (\<exists>vs. v = VStruct vs))"
  by (cases rule: has_ty.cases) (auto simp: blank_struct blank_ref elim: has_ty.cases)

lemma has_ty_SeqD:
  "has_ty env t (Seq ts) \<Longrightarrow> dec_basic data t v s = None \<and> (\<nexists>t'. underlying env t = TPtr t')"
  by (induction t "Seq ts" rule: has_ty.induct) auto

lemma has_ty_Seq_not_flat: "has_ty env t (Seq ts) \<Longrightarrow> \<not> flat env t"
  by (cases rule: has_ty.cases) (auto simp: flat_slice flat_named)

lemma decodes_leaf:
  assumes "leaf_of t l" shows "decodes env (Suc n) t (Leaf l)"
proof -
  from assms have "plain t" and "is_leaf l" by (auto simp: leaf_of_def split: gval.splits)
  then show ?thesis
    using dec_basic_leaf [OF assms]
    by (auto simp: decodes_def fresh_from_def intro: BPlain RLeaf)
qed

lemma decodes_struct:
  assumes "list_all2 (\<lambda>f g. fst f = fst g \<and> exported (fst f) \<and> decodes env n (snd f) (snd g)) (kept fs) ts"
  shows "decodes env (Suc n) (TStruct fs) (Node ts)"
  unfolding decodes_def
proof (intro allI impI, elim conjE)
  fix grow data v s
  assume "blank env (TStruct fs) v" and start: "starts data s (tree_bytes (Node ts))"
  then obtain vs where v: "v = VStruct vs" "list_all2 (field_blank env) fs vs"
    by (auto simp: blank_struct')
  from dec_fields_Ok [OF assms v(2), of data s grow] start obtain vs' s' where
    "dec_fields (decode env grow data n) fs vs s = DOk vs' s'"
    "d_off s' = d_off s + length (tree_bytes (Node ts))"
    "same_above 0 0 (d_heap s) (d_heap s')"
    "list_all2 (field_rep (d_heap s') (length (h_objs (d_heap s))) (length (h_arrs (d_heap s)))) (kept vs') ts"
    "flat_fields env fs \<Longrightarrow> list_all2 (field_blank env) fs vs' \<and>
       d_heap s' = d_heap s \<and> (\<forall>h p a. list_all2 (field_rep h p a) (kept vs') ts)"
    by auto
  moreover have "flat env (TStruct fs) \<longleftrightarrow> flat_fields env fs"
    by (simp add: flat_struct flat_fields_def)
  ultimately show "\<exists>v' s'. decode env grow data (Suc n) (TStruct fs) v s = DOk v' s' \<and>
      d_off s' = d_off s + length (tree_bytes (Node ts)) \<and>
      fresh_from (d_heap s) (d_heap s') v' (Node ts) \<and>
      (flat env (TStruct fs) \<longrightarrow> blank env (TStruct fs) v' \<and> d_heap s' = d_heap s \<and>
        (\<forall>h p a. rep h p a v' (Node ts)))"
    unfolding v(1) decode_struct
    by (auto simp: blank_struct' fresh_from_def intro: rep_struct')
qed

lemma decodes_slice:
  assumes "et \<noteq> TByte" and "flat env et" and "length ts \<le> 65535"
    and "list_all (decodes env n et) ts" and "zero env n et = Some z"
  shows "decodes env (Suc n) (TSlice et) (Seq ts)"
  unfolding decodes_def
proof (intro allI impI, elim conjE)
  fix grow data v s
  assume v: "blank env (TSlice et) v" and start: "starts data s (tree_bytes (Seq ts))"
  let ?len = "put_u16 (word_of_nat (length ts))"
  let ?body = "concat (map tree_bytes ts)"
  from v assms(1) have v: "v = VSlice None 0 0" by (simp add: blank_slice)
  from start have s0: "starts data s (?len @ ?body)" by simp
  from starts_append(1) [OF this] have len: "take 2 (rest data s) = ?len" "d_off s + 2 \<le> length data"
    using starts_take [of data s ?len] starts_length [of data s ?len] by auto
  have ll: "unat (get_u16 (take 2 (rest data s))) = length ts"
    using assms(3) by (simp add: len unat_of_nat)
  have "starts data (skip 2 s) ?body" using s0 by (rule starts_append(2)) simp
  moreover have "blank env et z" using assms(5) by (rule zero_blank)
  moreover have "slice_ok (length (h_arrs (d_heap s))) (d_heap (skip 2 s)) (VSlice None 0 0) []"
    by (simp add: slice_ok_def)
  ultimately obtain sl s' where
    d: "dec_loop grow (decode env grow data n et) z (length ts) 0 z (VSlice None 0 0) (skip 2 s) = DOk sl s'"
      "d_off s' = d_off s + 2 + length ?body"
      "slice_ok (length (h_arrs (d_heap s))) (d_heap s') sl ts"
      "below (length (h_arrs (d_heap s))) (d_heap s) (d_heap s')"
    using dec_loop_Ok [OF assms(2,4), where s = "skip 2 s" and us = "[]" and z = z and i = 0 and
        grow = grow and a = "length (h_arrs (d_heap s))" and vv = z and data = data and
        sl = "VSlice None 0 0"] by auto
  from d(1) len(2) ll assms(5) have "decode env grow data (Suc n) (TSlice et) v s = DOk sl s'"
    unfolding v decode_slice [OF assms(1)] by (simp add: dec_array_def Let_def)
  moreover have "fresh_from (d_heap s) (d_heap s') sl (Seq ts)"
    using slice_ok_rep [OF d(3) assms(3)] d(4)
    by (auto simp: fresh_from_def below_def same_above_def slice_ok_def
        intro!: RNil RSlice elim!: list_all2_mono simp: all_rep_def)
  moreover have "\<not> flat env (TSlice et)" using assms(1) by (simp add: flat_slice)
  ultimately show "\<exists>v' s'. decode env grow data (Suc n) (TSlice et) v s = DOk v' s' \<and>
      d_off s' = d_off s + length (tree_bytes (Seq ts)) \<and>
      fresh_from (d_heap s) (d_heap s') v' (Seq ts) \<and>
      (flat env (TSlice et) \<longrightarrow> blank env (TSlice et) v' \<and> d_heap s' = d_heap s \<and>
        (\<forall>h p a. rep h p a v' (Seq ts)))"
    using d(2) by auto
qed

lemma decodes_ref:
  assumes "map_of env x = Some fs" and "decodes env (Suc n) (TStruct fs) u"
  shows "decodes env (Suc n) (TRef x) u"
  using assms(2) unfolding decodes_def decode_ref [OF assms(1)]
  by (simp add: assms(1) blank_ref flat_ref)

lemma decodes_named:
  assumes "has_ty env t (Seq ts)" and "decodes env (Suc n) t (Seq ts)"
  shows "decodes env (Suc n) (TNamed t) (Seq ts)"
  unfolding decodes_def
proof (intro allI impI, elim conjE)
  fix grow data v s
  assume "blank env (TNamed t) v" and start: "starts data s (tree_bytes (Seq ts))"
  then obtain w where v: "v = VNamed w" "blank env t w" by (auto simp: blank_named)
  with start assms(2) obtain v' s' where
    "decode env grow data (Suc n) t w s = DOk v' s'"
    "d_off s' = d_off s + length (tree_bytes (Seq ts))" "fresh_from (d_heap s) (d_heap s') v' (Seq ts)"
    unfolding decodes_def by blast
  then show "\<exists>v' s'. decode env grow data (Suc n) (TNamed t) v s = DOk v' s' \<and>
      d_off s' = d_off s + length (tree_bytes (Seq ts)) \<and>
      fresh_from (d_heap s) (d_heap s') v' (Seq ts) \<and>
      (flat env (TNamed t) \<longrightarrow> blank env (TNamed t) v' \<and> d_heap s' = d_heap s \<and>
        (\<forall>h p a. rep h p a v' (Seq ts)))"
    using has_ty_SeqD [OF assms(1)]
    by (simp add: v decode_named flat_named fresh_from_def RNamed del: decode.simps)
qed

lemma decodes_ptr:
  assumes "has_ty env t (Node ts)" and "decodes env (Suc n) t (Node ts)" and "zero env n t = Some z"
  shows "decodes env (Suc n) (TPtr t) (Ref (Node ts))"
  unfolding decodes_def
proof (intro allI impI, elim conjE)
  fix grow data v s
  assume "blank env (TPtr t) v" and start: "starts data s (tree_bytes (Ref (Node ts)))"
  then have v: "v = VPtr None" by (simp add: blank_ptr)
  define h where "h = (d_heap s)\<lparr>h_objs := h_objs (d_heap s) @ [z]\<rparr>"
  let ?s = "s\<lparr>d_heap := h\<rparr>" and ?q = "length (h_objs (d_heap s))"
  from start have "starts data ?s (tree_bytes (Node ts))" by (simp add: starts_def)
  with assms(2) zero_blank [OF assms(3)] obtain v' s' where
    d: "decode env grow data (Suc n) t z ?s = DOk v' s'" "d_off s' = d_off s + length (tree_bytes (Node ts))"
      "same_above 0 0 h (d_heap s')" "rep (d_heap s') (Suc ?q) (length (h_arrs h)) v' (Node ts)"
    unfolding decodes_def fresh_from_def by (fastforce simp: h_def)
  let ?h' = "(d_heap s')\<lparr>h_objs := (h_objs (d_heap s'))[?q := v']\<rparr>"
  have q: "?q < length (h_objs (d_heap s'))" using d(3) by (auto simp: same_above_def h_def)
  have "same_above (Suc ?q) (length (h_arrs h)) (d_heap s') ?h'" by (auto simp: same_above_def)
  with d(4) have "rep ?h' (Suc ?q) (length (h_arrs h)) v' (Node ts)" by (rule rep_frame)
  then have "rep ?h' ?q (length (h_arrs h)) (h_objs ?h' ! ?q) (Node ts)"
    using q by (auto intro: rep_mono)
  then have "rep ?h' ?q (length (h_arrs h)) (VPtr (Some ?q)) (Ref (Node ts))"
    using q by (intro RPtr) simp_all
  moreover have "same_above 0 0 (d_heap s) ?h'"
    using d(3) by (auto simp: same_above_def h_def nth_append)
  ultimately have "fresh_from (d_heap s) ?h' (VPtr (Some ?q)) (Ref (Node ts))"
    by (simp add: fresh_from_def h_def)
  moreover have "decode env grow data (Suc n) (TPtr t) (VPtr None) s =
      DOk (VPtr (Some ?q)) (s'\<lparr>d_heap := ?h'\<rparr>)"
    using decode_ptr [OF assms(3) _ _ h_def, of data grow] has_ty_NodeD [OF assms(1)] d(1)
    by (simp add: dec_store_def Let_def del: decode.simps)
  ultimately show "\<exists>v' s'. decode env grow data (Suc n) (TPtr t) v s = DOk v' s' \<and>
      d_off s' = d_off s + length (tree_bytes (Ref (Node ts))) \<and>
      fresh_from (d_heap s) (d_heap s') v' (Ref (Node ts)) \<and>
      (flat env (TPtr t) \<longrightarrow> blank env (TPtr t) v' \<and> d_heap s' = d_heap s \<and>
        (\<forall>h p a. rep h p a v' (Ref (Node ts))))"
    using d(2) by (simp add: v flat_ptr del: decode.simps)
qed

text \<open>
  Every type has a zero value: the compiler rejects a struct that contains itself by value.
\<close>

definition sized :: "tenv \<Rightarrow> bool" where
  "sized env \<longleftrightarrow> (\<forall>x fs. map_of env x = Some fs \<longrightarrow> (\<exists>n z. zero env n (TRef x) = Some z))"

lemma zero_enough: "zero env n t = Some z \<Longrightarrow> enough (\<lambda>n. zero env n t = Some z)"
  unfolding eventually_sequentially using zero_mono by blast

lemma zero_fields_enough:
  assumes "\<forall>f\<in>set fs. \<exists>z. enough (\<lambda>n. zero env n (snd f) = Some z)"
  shows "\<exists>vs. enough (\<lambda>n. zero_fields (zero env n) fs = Some vs)"
  using assms
proof (induction fs)
  case (Cons f fs)
  then obtain z vs where "enough (\<lambda>n. zero env n (snd f) = Some z)"
    and "enough (\<lambda>n. zero_fields (zero env n) fs = Some vs)" by auto
  then have "enough (\<lambda>n. zero_fields (zero env n) (f # fs) = Some ((fst f, z) # vs))"
    by (rule eventually_elim2) (cases f, simp)
  then show ?case by blast
qed simp

lemma zero_exists:
  assumes "sized env" shows "\<exists>z. enough (\<lambda>n. zero env n t = Some z)"
proof (induction t)
  case (TStruct fs)
  have "\<forall>f\<in>set fs. \<exists>z. enough (\<lambda>n. zero env n (snd f) = Some z)"
    using TStruct.IH by (metis prod.collapse snds.intros)
  then obtain vs where "enough (\<lambda>n. zero_fields (zero env n) fs = Some vs)"
    using zero_fields_enough by blast
  then have "enough (\<lambda>n. zero env (Suc n) (TStruct fs) = Some (VStruct vs))"
    by (rule eventually_mono) simp
  then show ?case by (blast intro: enough_Suc)
next
  case (TNamed t)
  then obtain z where "enough (\<lambda>n. zero env n t = Some z)" by blast
  then have "enough (\<lambda>n. zero env (Suc n) (TNamed t) = Some (VNamed z))"
    by (rule eventually_mono) simp
  then show ?case by (blast intro: enough_Suc)
next
  case (TRef x)
  show ?case
  proof (cases "map_of env x")
    case None
    then have "zero env (Suc 0) (TRef x) = Some (VOther x)" by simp
    then show ?thesis by (blast intro: zero_enough)
  next
    case (Some fs)
    with assms show ?thesis unfolding sized_def by (blast intro: zero_enough)
  qed
qed (rule exI, rule zero_enough [where n = 1], simp)+

lemma has_ty_decodes:
  assumes "sized env"
  shows "has_ty env t u \<Longrightarrow> enough (\<lambda>n. decodes env n t u)"
proof (induction rule: has_ty.induct)
  case (HLeaf t l)
  then have "enough (\<lambda>n. decodes env (Suc n) t (Leaf l))" by (simp add: decodes_leaf)
  then show ?case by (rule enough_Suc)
next
  case (HStruct fs ts)
  have "list_all2 (\<lambda>f g. enough (\<lambda>n. fst f = fst g \<and> exported (fst f) \<and> decodes env n (snd f) (snd g)))
      (kept fs) ts"
    using HStruct.IH by (rule list_all2_mono) (auto simp: eventually_conj_iff)
  then have "enough (\<lambda>n. list_all2 (\<lambda>f g. fst f = fst g \<and> exported (fst f) \<and>
      decodes env n (snd f) (snd g)) (kept fs) ts)"
    by (rule enough_list_all2)
  then have "enough (\<lambda>n. decodes env (Suc n) (TStruct fs) (Node ts))"
    by (rule eventually_mono) (rule decodes_struct)
  then show ?case by (rule enough_Suc)
next
  case (HRef x fs ts)
  from HRef.IH have "enough (\<lambda>n. decodes env (Suc n) (TStruct fs) (Node ts))"
    by (rule eventually_sequentially_Suc [THEN iffD2])
  then have "enough (\<lambda>n. decodes env (Suc n) (TRef x) (Node ts))"
    by (rule eventually_mono) (rule decodes_ref [OF HRef.hyps(1)])
  then show ?case by (rule enough_Suc)
next
  case (HPtr t ts)
  obtain z where "enough (\<lambda>n. zero env n t = Some z)" using zero_exists [OF assms] by blast
  moreover from HPtr.IH have "enough (\<lambda>n. decodes env (Suc n) t (Node ts))"
    by (rule eventually_sequentially_Suc [THEN iffD2])
  ultimately have "enough (\<lambda>n. decodes env (Suc n) (TPtr t) (Ref (Node ts)))"
    by (rule eventually_elim2) (rule decodes_ptr [OF HPtr.hyps])
  then show ?case by (rule enough_Suc)
next
  case (HSlice et ts)
  obtain z where "enough (\<lambda>n. zero env n et = Some z)" using zero_exists [OF assms] by blast
  moreover have "enough (\<lambda>n. list_all (decodes env n et) ts)"
    using HSlice.IH by (induction ts) (auto simp: eventually_conj_iff)
  ultimately have "enough (\<lambda>n. decodes env (Suc n) (TSlice et) (Seq ts))"
    by (rule eventually_elim2) (rule decodes_slice [OF HSlice.hyps(1-3)])
  then show ?case by (rule enough_Suc)
next
  case (HNamed t ts)
  from HNamed.IH have "enough (\<lambda>n. decodes env (Suc n) t (Seq ts))"
    by (rule eventually_sequentially_Suc [THEN iffD2])
  then have "enough (\<lambda>n. decodes env (Suc n) (TNamed t) (Seq ts))"
    by (rule eventually_mono) (rule decodes_named [OF HNamed.hyps])
  then show ?case by (rule enough_Suc)
qed

section \<open>The round trip\<close>

lemma Marshal_rep:
  assumes "rep h p a v u" shows "enough (\<lambda>n. Marshal h n v = EOk (tree_bytes u))"
proof -
  have "path_ok h [] u" by (simp add: path_ok_def)
  with assms have "enough (\<lambda>n. \<forall>level. encode h n level [] v = EOk (tree_bytes u))" by (rule encode_rep)
  then show ?thesis by (rule eventually_mono) (simp add: Marshal_def)
qed

lemma Unmarshal_tree:
  assumes "decodes env n t u" and "zero env n t = Some z"
  shows "\<exists>v' s'. Unmarshal env grow n (tree_bytes u @ r) t z h' = DOk v' s' \<and>
    d_off s' = length (tree_bytes u) \<and> rep (d_heap s') 0 0 v' u \<and> same_above 0 0 h' (d_heap s')"
proof -
  let ?s = "\<lparr>d_off = 0, d_heap = h'\<rparr>"
  have "starts (tree_bytes u @ r) ?s (tree_bytes u)" by (simp add: starts_def)
  with assms(1) zero_blank [OF assms(2)] obtain v' s' where
    "decode env grow (tree_bytes u @ r) n t z ?s = DOk v' s'"
    "d_off s' = d_off ?s + length (tree_bytes u)" "fresh_from (d_heap ?s) (d_heap s') v' u"
    unfolding decodes_def by blast
  then show ?thesis by (auto simp: Unmarshal_def fresh_from_def intro: rep_mono)
qed

text \<open>C6: marshalling and unmarshalling are inverse: a value that is a finite tree of a type whose
  slices have flat elements is encoded, whatever it shares; and whatever follows these bytes,
  decoding them into a zero value of the type reads exactly them, leaves the objects that were
  there alone, and yields the same tree.\<close>

theorem marshal_roundtrip:
  assumes "sized env" and "rep h 0 0 v u" and "has_ty env t u"
  shows "\<exists>data n z. \<forall>m. Marshal h (n + m) v = EOk data \<and> zero env (n + m) t = Some z \<and>
    (\<forall>grow r h'. \<exists>v' s'. Unmarshal env grow (n + m) (data @ r) t z h' = DOk v' s' \<and>
       d_off s' = length data \<and> rep (d_heap s') 0 0 v' u \<and> same_above 0 0 h' (d_heap s'))"
proof -
  obtain z where z: "enough (\<lambda>n. zero env n t = Some z)" using zero_exists [OF assms(1)] by blast
  from Marshal_rep [OF assms(2)] z has_ty_decodes [OF assms(1,3)]
  have "enough (\<lambda>n. Marshal h n v = EOk (tree_bytes u) \<and> zero env n t = Some z \<and> decodes env n t u)"
    by (simp add: eventually_conj_iff)
  then obtain n where n: "\<forall>k\<ge>n. Marshal h k v = EOk (tree_bytes u) \<and> zero env k t = Some z \<and> decodes env k t u"
    unfolding eventually_sequentially by blast
  have "Marshal h (n + m) v = EOk (tree_bytes u)" "zero env (n + m) t = Some z" "decodes env (n + m) t u" for m
    using n by (simp_all del: zero.simps)
  then show ?thesis by (blast intro: Unmarshal_tree)
qed

text \<open>A player with a position behind a pointer and a slice of items.\<close>

definition round_types :: tenv where
  "round_types = [(''Pos'', [(''X'', TInt32), (''Y'', TInt32)]),
     (''Item'', [(''ID'', TUint16), (''cached'', TBool), (''Name'', TString)]),
     (''Player'', [(''Pos'', TPtr (TRef ''Pos'')), (''Items'', TSlice (TRef ''Item'')), (''Raw'', TSlice TByte)])]"

definition round_item :: "u16 \<Rightarrow> bytes \<Rightarrow> gval" where
  "round_item i b = VStruct [(''ID'', VUint16 i), (''cached'', VBool True), (''Name'', VString b)]"

definition round_heap :: heap where
  "round_heap = \<lparr>h_objs = [VStruct [(''X'', VInt32 7), (''Y'', VInt32 (- 1))]],
     h_arrs = [[round_item 3 [65], round_item 4 []]]\<rparr>"

definition round_value :: gval where
  "round_value = VStruct [(''Pos'', VPtr (Some 0)), (''Items'', VSlice (Some 0) 2 2), (''Raw'', VBytes [0, 1])]"

definition round_tree :: tree where
  "round_tree = Node [(''Pos'', Ref (Node [(''X'', Leaf (VInt32 7)), (''Y'', Leaf (VInt32 (- 1)))])),
     (''Items'', Seq [Node [(''ID'', Leaf (VUint16 3)), (''Name'', Leaf (VString [65]))],
                      Node [(''ID'', Leaf (VUint16 4)), (''Name'', Leaf (VString []))]]),
     (''Raw'', Leaf (VBytes [0, 1]))]"

lemma leaf_simps:
  "is_leaf (VInt32 w)" "is_leaf (VUint16 w')" "0 \<notin> set b \<Longrightarrow> is_leaf (VString b)"
  "length b \<le> 65535 \<Longrightarrow> is_leaf (VBytes b)"
  by (simp_all add: is_leaf_def enc_basic_def)

lemmas round_defs = round_types_def round_item_def round_heap_def round_value_def round_tree_def

lemma round_sized: "sized round_types"
proof -
  have "\<exists>z. zero round_types 3 (TRef ''Pos'') = Some z" "\<exists>z. zero round_types 3 (TRef ''Item'') = Some z"
    "\<exists>z. zero round_types 3 (TRef ''Player'') = Some z"
    by (simp_all add: round_types_def eval_nat_numeral)
  then show ?thesis by (auto simp: sized_def round_types_def split: if_splits)
qed

lemma round_rep: "rep round_heap 0 0 round_value round_tree"
  unfolding round_defs
  by (auto intro!: rep.intros simp: skipped_def exported_def leaf_simps)

lemma leaf_has_ty [simp]:
  "has_ty env TInt32 (Leaf (VInt32 w))" "has_ty env TUint16 (Leaf (VUint16 w'))"
  "0 \<notin> set b \<Longrightarrow> has_ty env TString (Leaf (VString b))"
  "length b \<le> 65535 \<Longrightarrow> has_ty env (TSlice TByte) (Leaf (VBytes b))"
  by (auto intro!: HLeaf simp: leaf_of_def leaf_simps)

lemma has_ty_declared:
  assumes "map_of env x = Some fs"
    and "list_all2 (\<lambda>f g. fst f = fst g \<and> exported (fst f) \<and> has_ty env (snd f) (snd g)) (kept fs) ts"
  shows "has_ty env (TRef x) (Node ts)"
  using assms by (blast intro: HRef HStruct)

lemma round_has_ty: "has_ty round_types (TRef ''Player'') round_tree"
proof -
  have pos: "has_ty round_types (TPtr (TRef ''Pos'')) (Ref (Node [(''X'', Leaf (VInt32 x)), (''Y'', Leaf (VInt32 y))]))" for x y
    by (rule HPtr, rule has_ty_declared) (simp add: round_types_def, simp add: skipped_def exported_def)
  have item: "has_ty round_types (TRef ''Item'') (Node [(''ID'', Leaf (VUint16 i)), (''Name'', Leaf (VString b))])"
    if "0 \<notin> set b" for i b
    by (rule has_ty_declared) (simp add: round_types_def, simp add: skipped_def exported_def that)
  have "flat round_types (TRef ''Item'')"
    by (auto simp: flat_ref flat_struct round_types_def kept_def intro: FPlain)
  with item have "has_ty round_types (TSlice (TRef ''Item''))
      (Seq [Node [(''ID'', Leaf (VUint16 3)), (''Name'', Leaf (VString [65]))],
        Node [(''ID'', Leaf (VUint16 4)), (''Name'', Leaf (VString []))]])"
    by (intro HSlice) simp_all
  with pos show ?thesis
    unfolding round_tree_def
    by (intro has_ty_declared [where fs = "[(''Pos'', TPtr (TRef ''Pos'')),
          (''Items'', TSlice (TRef ''Item'')), (''Raw'', TSlice TByte)]"])
      (simp_all add: round_types_def skipped_def exported_def)
qed

theorem marshal_roundtrip_witness:
  "\<exists>data n z v' s'. Marshal round_heap n round_value = EOk data \<and>
     Unmarshal round_types (\<lambda>_ c. c) n data (TRef ''Player'') z \<lparr>h_objs = [], h_arrs = []\<rparr> = DOk v' s' \<and>
     rep (d_heap s') 0 0 v' round_tree"
proof -
  from marshal_roundtrip [OF round_sized round_rep round_has_ty] obtain data n z where
    *: "\<And>m. Marshal round_heap (n + m) round_value = EOk data"
    "\<And>m grow r h'. \<exists>v' s'. Unmarshal round_types grow (n + m) (data @ r) (TRef ''Player'') z h' = DOk v' s' \<and>
       d_off s' = length data \<and> rep (d_heap s') 0 0 v' round_tree \<and> same_above 0 0 h' (d_heap s')"
    by blast
  from *(1) [of 0] *(2) [where m = 0 and r = "[]"] show ?thesis by auto blast
qed

end
