(* ===== verification/Encoding_Types.thy ===== *)
theory Encoding_Types
  imports Encoding
begin

text \<open>
  Type safety of the encoding: a registered type whose parts the code can handle is never
  the cause of a panic, whatever the heap, whatever the bytes; and decoding keeps the heap
  well typed, also when it stops at an error.
\<close>

section \<open>Typed values and heaps\<close>

text \<open>
  \<open>P\<close> gives the type of every object, \<open>A\<close> the element type of every array.
\<close>

definition basic_ty :: "ty \<Rightarrow> gval \<Rightarrow> bool" where
  "basic_ty t v \<longleftrightarrow>
     (case v of
        VBool _ \<Rightarrow> t = TBool | VByte _ \<Rightarrow> t = TByte | VInt16 _ \<Rightarrow> t = TInt16 | VUint16 _ \<Rightarrow> t = TUint16
      | VInt32 _ \<Rightarrow> t = TInt32 | VUint32 _ \<Rightarrow> t = TUint32 | VFloat32 _ \<Rightarrow> t = TFloat32
      | VFloat64 _ \<Rightarrow> t = TFloat64 | VString _ \<Rightarrow> t = TString | VInt8 _ \<Rightarrow> t = TInt8
      | VBytes _ \<Rightarrow> t = TSlice TByte | VOther x \<Rightarrow> t = TOther x | _ \<Rightarrow> False)"

inductive vty :: "tenv \<Rightarrow> ty list \<Rightarrow> ty list \<Rightarrow> ty \<Rightarrow> gval \<Rightarrow> bool" for env P A where
  VBasic: "basic_ty t v \<Longrightarrow> vty env P A t v"
| VNilSlice: "et \<noteq> TByte \<Longrightarrow> vty env P A (TSlice et) (VSlice None n c)"
| VArr: "et \<noteq> TByte \<Longrightarrow> i < length A \<Longrightarrow> A ! i = et \<Longrightarrow> vty env P A (TSlice et) (VSlice (Some i) n c)"
| VNil: "vty env P A (TPtr t) (VPtr None)"
| VObj: "q < length P \<Longrightarrow> P ! q = t \<Longrightarrow> vty env P A (TPtr t) (VPtr (Some q))"
| VFields: "list_all2 (\<lambda>f g. fst f = fst g \<and> vty env P A (snd f) (snd g)) fs vs
    \<Longrightarrow> vty env P A (TStruct fs) (VStruct vs)"
| VDeclared: "map_of env x = Some fs \<Longrightarrow> vty env P A (TStruct fs) v \<Longrightarrow> vty env P A (TRef x) v"
| VUndeclared: "map_of env x = None \<Longrightarrow> vty env P A (TRef x) (VOther x)"
| VDefined: "vty env P A t v \<Longrightarrow> vty env P A (TNamed t) (VNamed v)"

inductive_simps vty_slice: "vty env P A (TSlice et) v"
inductive_simps vty_ptr: "vty env P A (TPtr t) v"
inductive_simps vty_struct: "vty env P A (TStruct fs) v"
inductive_simps vty_ref: "vty env P A (TRef x) v"
inductive_simps vty_named: "vty env P A (TNamed t) v"
inductive_simps vty_byte: "vty env P A TByte v"

definition hty :: "tenv \<Rightarrow> ty list \<Rightarrow> ty list \<Rightarrow> heap \<Rightarrow> bool" where
  "hty env P A h \<longleftrightarrow> list_all2 (vty env P A) P (h_objs h) \<and>
     list_all2 (\<lambda>et vs. list_all (vty env P A et) vs) A (h_arrs h)"

definition field_ty :: "tenv \<Rightarrow> ty list \<Rightarrow> ty list \<Rightarrow> string \<times> ty \<Rightarrow> string \<times> gval \<Rightarrow> bool" where
  "field_ty env P A f g \<longleftrightarrow> fst f = fst g \<and> vty env P A (snd f) (snd g)"

lemma field_ty_simps [simp]:
  "field_ty env P A (x, t) (y, v) \<longleftrightarrow> x = y \<and> vty env P A t v"
  by (auto simp: field_ty_def)

lemma basic_ty_not [simp]:
  "\<not> basic_ty (TPtr t) v" "\<not> basic_ty (TStruct fs) v" "\<not> basic_ty (TRef x) v" "\<not> basic_ty (TNamed t) v"
  "basic_ty (TSlice et) v \<longleftrightarrow> et = TByte \<and> (\<exists>b. v = VBytes b)"
  by (auto simp: basic_ty_def split: gval.splits)

lemma vty_fields: "vty env P A (TStruct fs) v \<longleftrightarrow> (\<exists>vs. v = VStruct vs \<and> list_all2 (field_ty env P A) fs vs)"
  by (auto simp: vty_struct field_ty_def [abs_def])

text \<open>New objects and arrays do not disturb what is there.\<close>

definition grows :: "ty list \<Rightarrow> ty list \<Rightarrow> bool" where
  "grows P P' \<longleftrightarrow> (\<exists>Q. P' = P @ Q)"

lemma grows_refl [simp]: "grows P P"
  by (simp add: grows_def)

lemma grows_append [simp]: "grows P (P @ Q)"
  by (simp add: grows_def)

lemma grows_trans: "grows P P' \<Longrightarrow> grows P' P'' \<Longrightarrow> grows P P''"
  by (auto simp: grows_def)

lemma vty_grows: "vty env P A t v \<Longrightarrow> grows P P' \<Longrightarrow> grows A A' \<Longrightarrow> vty env P' A' t v"
proof (induction rule: vty.induct)
  case (VFields fs vs)
  then show ?case by (auto intro!: vty.VFields elim!: list_all2_mono)
qed (auto intro: vty.intros simp: grows_def nth_append)

lemma fields_ty_grows:
  "list_all2 (field_ty env P A) fs vs \<Longrightarrow> grows P P' \<Longrightarrow> grows A A' \<Longrightarrow> list_all2 (field_ty env P' A') fs vs"
  by (erule list_all2_mono) (auto simp: field_ty_def intro: vty_grows)

lemma zero_fields_ty:
  assumes "zero_fields z fs = Some vs" and "\<And>t v. z t = Some v \<Longrightarrow> vty env P A t v"
  shows "list_all2 (field_ty env P A) fs vs"
  using assms(1) by (induction fs arbitrary: vs) (fastforce split: option.splits dest: assms(2))+

lemma zero_vty: "zero env n t = Some v \<Longrightarrow> vty env P A t v"
proof (induction n arbitrary: t v)
  case (Suc n)
  note z = zero_fields_ty [of "zero env n", OF _ Suc.IH]
  show ?case
    using Suc.prems
    by (cases t) (auto simp: vty_fields vty_ref vty_named vty_slice vty_ptr basic_ty_def
        split: if_splits option.splits dest: z intro: Suc.IH VBasic)
qed simp

section \<open>Types the code can handle\<close>

text \<open>
  The registration check does not ask for everything the encoder needs: \<open>tame\<close> excludes what it
  lets through, an eight-bit signed integer, a defined basic type, and a field that is
  neither skipped nor exported.
\<close>

fun tame :: "ty \<Rightarrow> bool" where
  "tame (TSlice t) = tame t"
| "tame (TPtr t) = tame t"
| "tame (TStruct fs) = (\<forall>f\<in>set fs. skipped (fst f) \<or> exported (fst f) \<and> tame (snd f))"
| "tame (TNamed t) = (case t of TSlice et \<Rightarrow> tame t | _ \<Rightarrow> False)"
| "tame TInt8 = False"
| "tame t = True"

definition tame_env :: "tenv \<Rightarrow> bool" where
  "tame_env env \<longleftrightarrow> (\<forall>x fs. map_of env x = Some fs \<longrightarrow> tame (TStruct fs))"

inductive wire :: "tenv \<Rightarrow> ty \<Rightarrow> bool" for env where
  WBasic: "t \<in> {TBool, TByte, TInt16, TUint16, TInt32, TUint32, TFloat32, TFloat64, TString} \<Longrightarrow> wire env t"
| WSlice: "wire env et \<Longrightarrow> wire env (TSlice et)"
| WPtr: "wire env t \<Longrightarrow> is_struct (underlying env t) \<Longrightarrow> wire env (TPtr t)"
| WStruct: "\<forall>f\<in>set fs. skipped (fst f) \<or> exported (fst f) \<and> wire env (snd f) \<Longrightarrow> wire env (TStruct fs)"
| WRef: "map_of env x = Some fs \<Longrightarrow> wire env (TStruct fs) \<Longrightarrow> wire env (TRef x)"
| WNamed: "wire env (TSlice et) \<Longrightarrow> wire env (TNamed (TSlice et))"

inductive_simps wire_slice: "wire env (TSlice et)"
inductive_simps wire_ptr: "wire env (TPtr t)"
inductive_simps wire_struct: "wire env (TStruct fs)"
inductive_simps wire_ref: "wire env (TRef x)"
inductive_simps wire_named: "wire env (TNamed t)"

lemma check_fields_Accept:
  "check_fields chk fs = Accept \<Longrightarrow> f \<in> set fs \<Longrightarrow> \<not> skipped (fst f) \<Longrightarrow> chk (snd f) = Accept"
  by (induction fs) (auto split: if_splits check.splits)

lemma accepted_wire:
  assumes "tame_env env"
  shows "CheckRegisterTypeInner env n t = Accept \<Longrightarrow> tame t \<Longrightarrow> wire env t"
proof (induction n arbitrary: t)
  case (Suc n)
  have fields: "wire env (TStruct fs)"
    if "check_fields (CheckRegisterTypeInner env n) fs = Accept" and "tame (TStruct fs)" for fs
    using that check_fields_Accept [OF that(1)] by (auto intro!: WStruct intro: Suc.IH)
  show ?case
  proof (cases t)
    case (TNamed t')
    with Suc.prems obtain et where t': "t' = TSlice et" "tame et" by (auto split: ty.splits)
    with Suc.prems TNamed show ?thesis
      by (auto intro!: WNamed WSlice Suc.IH split: check.splits)
  next
    case (TRef x)
    with Suc.prems fields assms show ?thesis
      by (auto simp: tame_env_def intro: WRef split: option.splits simp del: tame.simps)
  next
    case (TStruct fs)
    with Suc.prems fields show ?thesis by simp
  next
    case (TSlice et)
    with Suc.prems show ?thesis by (auto intro!: WSlice Suc.IH split: check.splits)
  next
    case (TPtr t')
    with Suc.prems show ?thesis by (auto intro!: WPtr intro: Suc.IH split: check.splits if_splits)
  qed (use Suc.prems in \<open>auto intro: WBasic\<close>)
qed simp

section \<open>Marshal\<close>

definition calm :: "enc_res \<Rightarrow> bool" where
  "calm r \<longleftrightarrow> (case r of EPanic _ \<Rightarrow> False | _ \<Rightarrow> True)"

lemma calm_simps [simp]: "calm (EOk b)" "calm (EErr e)" "\<not> calm (EPanic e)" "calm EDeep"
  by (simp_all add: calm_def)

lemma calm_bind: "calm r \<Longrightarrow> (\<And>b. calm (f b)) \<Longrightarrow> calm (enc_bind r f)"
  by (cases r) (simp_all add: enc_bind_def)

lemma calm_wrap [simp]: "calm (enc_wrap e r) = calm r"
  by (cases r) (simp_all add: enc_wrap_def)

lemma enc_fields_calm:
  assumes "list_all2 (field_ty env P A) fs vs"
    and "\<forall>f\<in>set fs. skipped (fst f) \<or> exported (fst f) \<and> wire env (snd f)"
    and "\<And>t v. wire env t \<Longrightarrow> vty env P A t v \<Longrightarrow> calm (enc v)"
  shows "calm (enc_fields enc vs)"
  using assms(1,2)
proof (induction rule: list_all2_induct)
  case (Cons f fs g vs)
  obtain x t y v where "f = (x, t)" "g = (y, v)" by fastforce
  with Cons show ?case by (auto intro!: calm_bind assms(3))
qed simp

lemma enc_elems_calm: "(\<And>v. v \<in> set vs \<Longrightarrow> calm (enc v)) \<Longrightarrow> calm (enc_elems enc i vs)"
  by (induction vs arbitrary: i) (auto intro!: calm_bind)

lemma enc_array_calm: "(\<And>v. v \<in> set vs \<Longrightarrow> calm (enc v)) \<Longrightarrow> calm (enc_array enc vs)"
  by (auto simp: enc_array_def intro!: calm_bind enc_elems_calm)

lemma slice_elems_ty:
  assumes "hty env P A h" and "vty env P A (TSlice et) (VSlice i n c)" and "v \<in> set (slice_elems h i n)"
  shows "vty env P A et v"
proof -
  from assms obtain j where j: "i = Some j" "j < length A" "A ! j = et" "v \<in> set (h_arrs h ! j)"
    by (auto simp: vty_slice slice_elems_def dest: in_set_takeD)
  with assms(1) have "list_all (vty env P A et) (h_arrs h ! j)"
    by (auto simp: hty_def list_all2_conv_all_nth)
  with j(4) show ?thesis by (simp add: list_all_iff)
qed

lemma object_ty:
  "hty env P A h \<Longrightarrow> vty env P A (TPtr t) (VPtr (Some q)) \<Longrightarrow> vty env P A t (h_objs h ! q)"
  by (auto simp: hty_def vty_ptr list_all2_conv_all_nth)

text \<open>The kinds that may follow a pointer or a failed type switch.\<close>

definition composite :: "tenv \<Rightarrow> ty \<Rightarrow> bool" where
  "composite env t \<longleftrightarrow> (case underlying env t of TStruct _ \<Rightarrow> True | TSlice _ \<Rightarrow> True | _ \<Rightarrow> False)"

lemma enc_kind_calm:
  assumes "hty env P A h" and "vty env P A t v" and "wire env t" and "composite env t"
    and enc: "\<And>t v. wire env t \<Longrightarrow> vty env P A t v \<Longrightarrow> calm (enc v)"
  shows "calm (enc_kind enc h v)"
proof -
  have struct: "calm (enc_kind enc h (VStruct vs))"
    if "wire env (TStruct fs)" and "list_all2 (field_ty env P A) fs vs" for fs vs
    using that by (auto simp: enc_kind_def wire_struct intro: enc_fields_calm [OF _ _ enc])
  have slice: "calm (enc_kind enc h v)" if "wire env (TSlice et)" and "vty env P A (TSlice et) v" for et v
  proof -
    from that(1) have et: "wire env et" by (simp add: wire_slice)
    show ?thesis
    proof (cases v)
      case (VSlice i n c)
      with that(2) et slice_elems_ty [OF assms(1)] show ?thesis
        by (auto simp: enc_kind_def intro!: enc_array_calm enc)
    next
      case (VBytes b)
      with that(2) have "et = TByte" by (simp add: vty_slice)
      with VBytes et show ?thesis
        by (auto simp: enc_kind_def vty_byte basic_ty_def intro!: enc_array_calm enc)
    qed (use that(2) in \<open>auto simp: vty_slice\<close>)
  qed
  show ?thesis
    using assms(3,4)
  proof cases
    case (WSlice et)
    with assms(2,3) slice show ?thesis by simp
  next
    case (WStruct fs)
    with assms(2,3) struct show ?thesis by (auto simp: vty_fields)
  next
    case (WRef x fs)
    with assms(2) struct show ?thesis by (auto simp: vty_fields vty_ref)
  next
    case (WNamed et)
    with assms(2) obtain w where w: "v = VNamed w" "vty env P A (TSlice et) w"
      by (auto simp: vty_named)
    have "enc_kind enc h (VNamed w) = enc_kind enc h w" by (simp add: enc_kind_def)
    with w slice WNamed show ?thesis by simp
  qed (auto simp: composite_def)
qed

lemma enc_basic_calm: "enc_basic v = Some r \<Longrightarrow> calm r"
  by (auto simp: enc_basic_def split: gval.splits if_splits)

lemma encode_calm:
  assumes "hty env P A h"
  shows "wire env t \<Longrightarrow> vty env P A t v \<Longrightarrow> calm (encode h n level seen v)"
proof (induction n arbitrary: t v level seen)
  case (Suc n)
  have kind: "calm (enc_kind (encode h n l k) h v)"
    if "wire env t" "vty env P A t v" "composite env t" for l k t v
    using enc_kind_calm [OF assms that(2,1,3)] Suc.IH by blast
  show ?case
  proof (cases "enc_basic v")
    case (Some r)
    then show ?thesis by (simp add: enc_basic_calm)
  next
    case None
    from Suc.prems(1) show ?thesis
    proof cases
      case (WPtr t')
      have "composite env t'" using WPtr(3) by (auto simp: composite_def is_struct_def split: ty.splits)
      with Suc.prems(2) WPtr(1,2) object_ty [OF assms] kind show ?thesis
        by (auto simp: vty_ptr enc_basic_def Let_def)
    next
      case WBasic
      with None Suc.prems(2) show ?thesis
        by (auto simp: enc_basic_def vty.simps [of env P A t] basic_ty_def split: gval.splits)
    next
      case (WStruct fs)
      with Suc.prems kind [of t v] None show ?thesis by (auto simp: vty_fields composite_def)
    next
      case (WRef x fs)
      with Suc.prems kind [of t v] None show ?thesis by (auto simp: vty_fields vty_ref composite_def)
    next
      case (WSlice et)
      with Suc.prems kind [of t v] None show ?thesis
        by (auto simp: vty_slice composite_def split: gval.split)
    next
      case (WNamed et)
      with Suc.prems(2) obtain w where "v = VNamed w" "unname v = w"
        by (auto simp: vty_named vty_slice)
      moreover from this WNamed Suc.prems(2) have "\<forall>q. w \<noteq> VPtr q" by (auto simp: vty_named vty_slice)
      ultimately show ?thesis
        using WNamed Suc.prems kind [of t v] None by (auto simp: composite_def split: gval.split)
    qed
  qed
qed simp

section \<open>Unmarshal\<close>

text \<open>
  \<open>safe\<close>: no panic, and both with and without an error the heap is well typed in an
  extension of the typing, and the value satisfies \<open>R\<close> there.
\<close>

definition safe_at :: "tenv \<Rightarrow> ty list \<Rightarrow> ty list \<Rightarrow> (ty list \<Rightarrow> ty list \<Rightarrow> 'v \<Rightarrow> bool) \<Rightarrow> 'v \<Rightarrow> dst \<Rightarrow> bool" where
  "safe_at env P A R v s \<longleftrightarrow>
     (\<exists>P' A'. grows P P' \<and> grows A A' \<and> hty env P' A' (d_heap s) \<and> R P' A' v)"

definition safe :: "tenv \<Rightarrow> ty list \<Rightarrow> ty list \<Rightarrow> (ty list \<Rightarrow> ty list \<Rightarrow> 'v \<Rightarrow> bool) \<Rightarrow> 'v dec_res \<Rightarrow> bool" where
  "safe env P A R r \<longleftrightarrow>
     (case r of DOk v s \<Rightarrow> safe_at env P A R v s | DErr e v s \<Rightarrow> safe_at env P A R v s
      | DPanic m \<Rightarrow> False | DDeep \<Rightarrow> True)"

lemma safe_simps [simp]:
  "safe env P A R (DOk v s) = safe_at env P A R v s" "safe env P A R (DErr e v s) = safe_at env P A R v s"
  "\<not> safe env P A R (DPanic m)" "safe env P A R DDeep"
  by (simp_all add: safe_def)

lemma safe_here: "hty env P A (d_heap s) \<Longrightarrow> R P A v \<Longrightarrow> safe_at env P A R v s"
  unfolding safe_at_def by (blast intro: grows_refl)

lemma safe_weaken:
  assumes "safe env P' A' R r" and "grows P P'" and "grows A A'" and "\<And>P A v. R P A v \<Longrightarrow> Q P A (f v)"
  shows "safe env P A Q (dec_map f r)"
  using assms(1) by (cases r) (auto simp: safe_at_def intro: grows_trans [OF assms(2)] grows_trans [OF assms(3)] assms(4))

definition decodes_safely :: "tenv \<Rightarrow> (ty \<Rightarrow> gval \<Rightarrow> dst \<Rightarrow> gval dec_res) \<Rightarrow> bool" where
  "decodes_safely env d \<longleftrightarrow>
     (\<forall>P A t v s. hty env P A (d_heap s) \<and> wire env t \<and> vty env P A t v \<longrightarrow>
        safe env P A (\<lambda>P A. vty env P A t) (d t v s))"

lemma safe_fields_Cons:
  assumes "safe env P' A' (\<lambda>P A. list_all2 (field_ty env P A) fs) r"
    and "grows P P'" and "grows A A'" and "vty env P' A' t w"
  shows "safe env P A (\<lambda>P A. list_all2 (field_ty env P A) ((x, t) # fs)) (dec_map (\<lambda>r. (x, w) # r) r)"
proof (cases r)
  case (DOk rs s)
  with assms show ?thesis by (auto simp: safe_at_def) (meson grows_trans vty_grows)
next
  case (DErr e rs s)
  with assms show ?thesis by (auto simp: safe_at_def) (meson grows_trans vty_grows)
qed (use assms in simp_all)

lemma dec_fields_safe:
  assumes d: "decodes_safely env d"
    and "list_all2 (field_ty env P A) fs vs"
    and "\<forall>f\<in>set fs. skipped (fst f) \<or> exported (fst f) \<and> wire env (snd f)"
    and "hty env P A (d_heap s)"
  shows "safe env P A (\<lambda>P A. list_all2 (field_ty env P A) fs) (dec_fields d fs vs s)"
  using assms(2-)
proof (induction fs arbitrary: vs s P A)
  case Nil
  then show ?case by (simp add: safe_here)
next
  case (Cons f fs)
  obtain x t where f: "f = (x, t)" by fastforce
  with Cons.prems(1) obtain v vs0 where vs: "vs = (x, v) # vs0" "vty env P A t v"
    "list_all2 (field_ty env P A) fs vs0"
    by (cases vs) (auto simp: field_ty_def [of _ _ _ "(x, t)"])
  have tail: "safe env P A (\<lambda>P A. list_all2 (field_ty env P A) (f # fs))
      (dec_map (\<lambda>r. (x, w) # r) (dec_fields d fs vs0 s'))"
    if "grows P P'" "grows A A'" "hty env P' A' (d_heap s')" "vty env P' A' t w" for P' A' s' w
  proof -
    have "list_all2 (field_ty env P' A') fs vs0" using vs(3) that(1,2) by (rule fields_ty_grows)
    with Cons.prems(2) that(3)
    have "safe env P' A' (\<lambda>P A. list_all2 (field_ty env P A) fs) (dec_fields d fs vs0 s')"
      by (intro Cons.IH) simp_all
    from safe_fields_Cons [OF this that(1,2,4)] show ?thesis by (simp add: f)
  qed
  show ?case
  proof (cases "skipped x")
    case True
    with f vs tail [OF grows_refl grows_refl Cons.prems(3) vs(2)] show ?thesis by simp
  next
    case False
    with f Cons.prems(2) have w: "exported x" "wire env t" by auto
    with d vs(2) Cons.prems(3) have sf: "safe env P A (\<lambda>P A. vty env P A t) (d t v s)"
      by (auto simp: decodes_safely_def)
    show ?thesis
    proof (cases "d t v s")
      case (DOk w s')
      with sf obtain P' A' where "grows P P'" "grows A A'" "hty env P' A' (d_heap s')" "vty env P' A' t w"
        by (auto simp: safe_at_def)
      from tail [OF this] f vs w False DOk show ?thesis by simp
    next
      case (DErr e w' s')
      with sf obtain P' A' where "grows P P'" "grows A A'" "hty env P' A' (d_heap s')" "vty env P' A' t w'"
        by (auto simp: safe_at_def)
      moreover from this vs(3) have "list_all2 (field_ty env P' A') fs vs0" by (blast intro: fields_ty_grows)
      ultimately show ?thesis using f vs w False DErr by (auto simp: safe_at_def)
    qed (use sf f vs w False in simp_all)
  qed
qed

lemma hty_objs: "hty env P A h \<Longrightarrow> length (h_objs h) = length P"
  "hty env P A h \<Longrightarrow> length (h_arrs h) = length A"
  by (auto simp: hty_def dest: list_all2_lengthD)

lemma hty_grow_arr:
  assumes "hty env P A h" and "list_all (vty env P A et) vs"
  shows "hty env P (A @ [et]) (h\<lparr>h_arrs := h_arrs h @ [vs]\<rparr>)"
proof -
  have g: "vty env P A t v \<Longrightarrow> vty env P (A @ [et]) t v" for t v by (erule vty_grows) simp_all
  from assms have "list_all2 (\<lambda>et. list_all (vty env P (A @ [et']) et)) A (h_arrs h)" if "et' = et" for et'
    using that g by (auto simp: hty_def list_all_iff elim!: list_all2_mono)
  with assms g show ?thesis
    by (auto simp: hty_def list_all_iff intro!: list_all2_appendI elim!: list_all2_mono)
qed

lemma hty_set_arr:
  assumes "hty env P A h" and "i < length A" and "A ! i = et" and "vty env P A et x"
  shows "hty env P A (h\<lparr>h_arrs := (h_arrs h)[i := (h_arrs h ! i)[k := x]]\<rparr>)"
proof -
  have "list_all (vty env P A et) (h_arrs h ! i)"
    using assms by (auto simp: hty_def list_all2_conv_all_nth)
  then have "list_all (vty env P A et) ((h_arrs h ! i)[k := x])"
    using assms(4) by (auto simp: list_all_iff dest: set_update_subset_insert [THEN subsetD])
  with assms show ?thesis
    by (auto simp: hty_def list_all2_conv_all_nth nth_list_update)
qed

lemma append1_safe:
  assumes "hty env P A h" and "vty env P A (TSlice et) sl" and "vty env P A et x" and "vty env P A et z"
    and "append1 grow z sl x h = (sl', h')"
  shows "\<exists>A'. grows A A' \<and> hty env P A' h' \<and> vty env P A' (TSlice et) sl'"
proof -
  have fresh: "\<exists>A'. grows A A' \<and> hty env P A' (h\<lparr>h_arrs := h_arrs h @ [vs]\<rparr>) \<and>
      vty env P A' (TSlice et) (VSlice (Some (length (h_arrs h))) n c)"
    if "et \<noteq> TByte" and "\<And>v. v \<in> set vs \<Longrightarrow> vty env P A et v" for vs n c
  proof -
    have "list_all (vty env P A et) vs" using that(2) by (simp add: list_all_iff)
    from hty_grow_arr [OF assms(1) this] that(1) hty_objs(2) [OF assms(1)] show ?thesis
      by (intro exI [of _ "A @ [et]"]) (simp add: vty_slice nth_append)
  qed
  show ?thesis
  proof (cases sl)
    case (VBytes b)
    with assms(2) have "et = TByte" by (simp add: vty_slice)
    with VBytes assms show ?thesis
      by (cases x) (auto simp: append1_def vty_slice vty_byte basic_ty_def intro!: exI [of _ A])
  next
    case (VSlice i n c)
    with assms(2) have et: "et \<noteq> TByte" by (auto simp: vty_slice)
    have elems: "vty env P A et v" if "v \<in> set (slice_elems h i n)" for v
      using slice_elems_ty [OF assms(1)] assms(2) VSlice that by blast
    show ?thesis
    proof (cases i)
      case None
      with VSlice assms et show ?thesis by (auto simp: append1_def Let_def intro!: fresh)
    next
      case (Some j)
      show ?thesis
      proof (cases "n + 1 \<le> c")
        case True
        with Some VSlice assms show ?thesis
          by (auto simp: append1_def vty_slice intro!: exI [of _ A] hty_set_arr)
      next
        case False
        with Some VSlice assms et elems show ?thesis
          by (auto simp: append1_def Let_def slice_elems_def intro!: fresh)
      qed
    qed
  qed (use assms in \<open>auto simp: vty_slice\<close>)
qed

lemma dec_loop_safe:
  assumes d: "decodes_safely env d" and et: "wire env et" and z: "\<And>P A. vty env P A et z"
  shows "hty env P A (d_heap s) \<Longrightarrow> vty env P A et vv \<Longrightarrow> vty env P A (TSlice et) sl \<Longrightarrow>
    safe env P A (\<lambda>P A. vty env P A (TSlice et)) (dec_loop grow (d et) z k i vv sl s)"
proof (induction k arbitrary: i vv sl s P A)
  case 0
  then show ?case by (simp add: safe_here)
next
  case (Suc k)
  from d et Suc.prems(1,2) have s: "safe env P A (\<lambda>P A. vty env P A et) (d et vv s)"
    by (simp add: decodes_safely_def)
  show ?case
  proof (cases "d et vv s")
    case (DOk v s')
    with s obtain P' A' where t: "grows P P'" "grows A A'" "hty env P' A' (d_heap s')" "vty env P' A' et v"
      by (auto simp: safe_at_def)
    obtain sl' h' where a: "append1 grow z sl v (d_heap s') = (sl', h')" by fastforce
    have "vty env P' A' (TSlice et) sl" using Suc.prems(3) t(1,2) by (rule vty_grows)
    from append1_safe [OF t(3) this t(4) z a] obtain A'' where
      u: "grows A' A''" "hty env P' A'' h'" "vty env P' A'' (TSlice et) sl'" by blast
    have "vty env P' A'' et v" using t(4) u(1) by (auto intro: vty_grows)
    with u have "safe env P' A'' (\<lambda>P A. vty env P A (TSlice et))
        (dec_loop grow (d et) z k (i + 1) v sl' (s'\<lparr>d_heap := h'\<rparr>))"
      by (intro Suc.IH) simp_all
    from safe_weaken [OF this t(1) grows_trans [OF t(2) u(1)],
        of "\<lambda>P A. vty env P A (TSlice et)" "\<lambda>v. v"] DOk a
    show ?thesis
      by (cases "dec_loop grow (d et) z k (i + 1) v sl' (s'\<lparr>d_heap := h'\<rparr>)") simp_all
  next
    case (DErr e v s')
    with s obtain P' A' where "grows P P'" "grows A A'" "hty env P' A' (d_heap s')"
      by (auto simp: safe_at_def)
    with DErr Suc.prems(3) show ?thesis
      by (auto simp: safe_at_def simp del: split_paired_Ex intro: vty_grows)
  qed (use s in simp_all)
qed

lemma dec_array_safe:
  assumes d: "decodes_safely env d" and et: "wire env et" and z: "\<And>v P A. z = Some v \<Longrightarrow> vty env P A et v"
    and h: "hty env P A (d_heap s)" and v: "vty env P A (TSlice et) v"
  shows "safe env P A (\<lambda>P A. vty env P A (TSlice et)) (dec_array grow (d et) z data v s)"
proof (cases z)
  case None
  with h v show ?thesis by (simp add: dec_array_def Let_def safe_here)
next
  case (Some w)
  have "vty env P A (TSlice et) (case v of VSlice a _ cap \<Rightarrow> VSlice a 0 cap | VBytes _ \<Rightarrow> VBytes [] | _ \<Rightarrow> v)"
    using v by (auto simp: vty_slice)
  moreover have "hty env P A (d_heap (skip 2 s))" using h by (simp add: skip_def)
  ultimately show ?thesis
    using Some dec_loop_safe [OF d et, of w P A "skip 2 s"] z h v
    by (simp add: dec_array_def Let_def safe_here)
qed

lemma dec_basic_safe:
  assumes "dec_basic data t v s = Some r" and "hty env P A (d_heap s)" and "vty env P A t v"
  shows "safe env P A (\<lambda>P A. vty env P A t) r"
proof -
  have fixed: "safe env P A (\<lambda>P A. vty env P A t) (dec_fixed e k mk data v s)"
    if "\<And>b. basic_ty t (mk b)" for e k mk
    using assms(2,3) that by (auto simp: dec_fixed_def skip_def intro!: safe_here VBasic)
  have "safe env P A (\<lambda>P A. vty env P A t) (dec_string data v s)" if "t = TString"
    using assms(2,3) that
    by (auto simp: dec_string_def skip_def basic_ty_def split: option.split intro!: safe_here VBasic)
  moreover have "safe env P A (\<lambda>P A. vty env P A t) (dec_bytes data v s)" if "t = TSlice TByte"
    using assms(2,3) that
    by (auto simp: dec_bytes_def skip_def Let_def intro!: safe_here VBasic)
  ultimately show ?thesis
    using assms(1) fixed by (auto simp: dec_basic_def basic_ty_def split: if_splits ty.splits)
qed

lemma dec_kind_safe:
  assumes d: "decodes_safely env d" and z: "\<And>t v P A. z t = Some v \<Longrightarrow> vty env P A t v"
    and h: "hty env P A (d_heap s)" and v: "vty env P A t v" and w: "wire env t" and c: "composite env t"
  shows "safe env P A (\<lambda>P A. vty env P A t) (dec_kind env grow d z data t v s)"
proof -
  have struct: "safe env P A (\<lambda>P A. vty env P A (TStruct fs)) (dec_map VStruct (dec_fields d fs vs s))"
    if "wire env (TStruct fs)" and "list_all2 (field_ty env P A) fs vs" for fs vs
    using that h
    by (intro safe_weaken [OF dec_fields_safe [OF d that(2)] grows_refl grows_refl])
      (auto simp: wire_struct vty_fields)
  have slice: "safe env P A (\<lambda>P A. vty env P A (TSlice et)) (dec_array grow (d et) (z et) data u s)"
    if "wire env (TSlice et)" and "vty env P A (TSlice et) u" for et u
    using that by (intro dec_array_safe [OF d _ _ h]) (auto simp: wire_slice dest: z)
  have same: "dec_map (rename_as u) r = r" if "\<nexists>w. u = VNamed w" for u r
    using that by (cases u; cases r) simp_all
  show ?thesis
    using w c
  proof cases
    case (WSlice et)
    with v slice [of et v] w show ?thesis by (auto simp: dec_kind_def same vty_slice)
  next
    case (WStruct fs)
    with v w struct show ?thesis by (auto simp: dec_kind_def same vty_fields)
  next
    case (WRef x fs)
    with v struct have "safe env P A (\<lambda>P A. vty env P A (TStruct fs)) (dec_kind env grow d z data t v s)"
      by (auto simp: dec_kind_def same vty_fields vty_ref)
    moreover have "(\<lambda>P A. vty env P A (TRef x)) = (\<lambda>P A. vty env P A (TStruct fs))"
      using WRef by (simp add: vty_ref fun_eq_iff)
    ultimately show ?thesis using WRef by simp
  next
    case (WNamed et)
    with v obtain u where u: "v = VNamed u" "vty env P A (TSlice et) u" "unname v = u" "\<nexists>w. u = VNamed w"
      by (auto simp: vty_named vty_slice)
    have "rename_as v = (\<lambda>w. VNamed (rename_as u w))" using u by (simp add: fun_eq_iff)
    moreover have "rename_as u = (\<lambda>w. w)" using u(4) by (cases u) auto
    moreover have "safe env P A (\<lambda>P A. vty env P A (TNamed (TSlice et)))
        (dec_map VNamed (dec_array grow (d et) (z et) data u s))"
      by (rule safe_weaken [OF slice [OF WNamed(2) u(2)] grows_refl grows_refl]) (rule VDefined)
    ultimately show ?thesis using WNamed u(3) by (simp add: dec_kind_def)
  qed (auto simp: composite_def)
qed

lemma hty_new_obj:
  assumes "hty env P A h" and "\<And>P A. vty env P A t z"
  shows "hty env (P @ [t]) A (h\<lparr>h_objs := h_objs h @ [z]\<rparr>)"
proof -
  have g: "vty env P A t' v \<Longrightarrow> vty env (P @ [t]) A t' v" for t' v by (erule vty_grows) simp_all
  with assms show ?thesis
    by (auto simp: hty_def list_all_iff intro!: list_all2_appendI elim!: list_all2_mono)
qed

lemma dec_store_safe:
  assumes r: "safe env P A (\<lambda>P A. vty env P A t) r" and q: "q < length P" "P ! q = t"
  shows "safe env P A (\<lambda>P A. vty env P A (TPtr t)) (dec_store (VPtr p) q r)"
proof -
  have store: "safe_at env P A (\<lambda>P A. vty env P A (TPtr t)) (VPtr (Some q))
      (s\<lparr>d_heap := (d_heap s)\<lparr>h_objs := (h_objs (d_heap s))[q := v]\<rparr>\<rparr>)"
    if "safe_at env P A (\<lambda>P A. vty env P A t) v s" for v s
  proof -
    from that obtain P' A' where t: "grows P P'" "grows A A'" "hty env P' A' (d_heap s)" "vty env P' A' t v"
      by (auto simp: safe_at_def)
    with q have "q < length P'" "P' ! q = t" by (auto simp: grows_def nth_append)
    moreover from this t have "hty env P' A' ((d_heap s)\<lparr>h_objs := (h_objs (d_heap s))[q := v]\<rparr>)"
      by (auto simp: hty_def list_all2_conv_all_nth nth_list_update)
    ultimately show ?thesis
      using t by (auto simp: safe_at_def vty_ptr)
  qed
  from r store show ?thesis by (cases r) (auto simp: dec_store_def Let_def)
qed

lemma dec_pointer_safe:
  assumes d: "decodes_safely env d" and h: "hty env P A (d_heap s)" and v: "vty env P A (TPtr t) v"
    and w: "wire env t" and c: "composite env t"
    and o: "dec_object env n t v (d_heap s) = Some (q, h')"
  shows "safe env P A (\<lambda>P A. vty env P A (TPtr t))
    (dec_store v q (dec_kind env grow d (zero env n) data t (h_objs h' ! q) (s\<lparr>d_heap := h'\<rparr>)))"
proof -
  from v obtain p where p: "v = VPtr p" by (auto simp: vty_ptr)
  have main: "safe env P' A (\<lambda>P A. vty env P A (TPtr t))
    (dec_store v q (dec_kind env grow d (zero env n) data t (h_objs h' ! q) (s\<lparr>d_heap := h'\<rparr>)))"
    if "hty env P' A h'" "q < length P'" "P' ! q = t" for P'
    unfolding p
    by (intro dec_store_safe dec_kind_safe [OF d _ _ _ w c])
      (use that in \<open>auto intro: zero_vty object_ty simp: vty_ptr\<close>)
  show ?thesis
  proof (cases p)
    case None
    with o p obtain z where z: "zero env n t = Some z" "q = length (h_objs (d_heap s))"
      "h' = (d_heap s)\<lparr>h_objs := h_objs (d_heap s) @ [z]\<rparr>"
      by (auto simp: dec_object_def)
    with hty_new_obj [OF h, of t z] zero_vty [OF z(1)] hty_objs(1) [OF h]
    have "safe env (P @ [t]) A (\<lambda>P A. vty env P A (TPtr t))
      (dec_store v q (dec_kind env grow d (zero env n) data t (h_objs h' ! q) (s\<lparr>d_heap := h'\<rparr>)))"
      by (intro main) auto
    from safe_weaken [OF this grows_append grows_refl, of "\<lambda>P A. vty env P A (TPtr t)" "\<lambda>v. v"]
    show ?thesis by (cases "dec_store v q (dec_kind env grow d (zero env n) data t (h_objs h' ! q) (s\<lparr>d_heap := h'\<rparr>))") simp_all
  next
    case (Some p')
    with o p v h show ?thesis by (intro main) (auto simp: dec_object_def vty_ptr)
  qed
qed

lemma wire_composite:
  "wire env t \<Longrightarrow> (\<exists>t'. t = TPtr t') \<or> composite env t \<or> (\<forall>data v s. dec_basic data t v s \<noteq> None)"
  by (cases rule: wire.cases) (auto simp: composite_def dec_basic_def)

lemma composite_not_ptr: "composite env t \<Longrightarrow> underlying env t \<noteq> TPtr t'"
  by (auto simp: composite_def)

lemma decode_safe: "decodes_safely env (decode env grow data n)"
proof (induction n)
  case 0
  then show ?case by (simp add: decodes_safely_def)
next
  case (Suc n)
  show ?case
    unfolding decodes_safely_def
  proof (intro allI impI, elim conjE)
    fix P A t v and s :: dst
    assume h: "hty env P A (d_heap s)" and w: "wire env t" and v: "vty env P A t v"
    show "safe env P A (\<lambda>P A. vty env P A t) (decode env grow data (Suc n) t v s)"
    proof (cases "dec_basic data t v s")
      case (Some r)
      with dec_basic_safe [OF Some h v] show ?thesis by simp
    next
      case None
      with wire_composite [OF w] consider t' where "t = TPtr t'" | "composite env t" by fastforce
      then show ?thesis
      proof cases
        case (1 t')
        with w have t': "wire env t'" "composite env t'"
          by (auto simp: wire_ptr composite_def is_struct_def split: ty.splits)
        show ?thesis
        proof (cases "dec_object env n t' v (d_heap s)")
          case None
          with 1 \<open>dec_basic data t v s = None\<close> show ?thesis by simp
        next
          case (Some qh)
          obtain q h' where "qh = (q, h')" by fastforce
          with Some 1 dec_pointer_safe [OF Suc.IH h _ t', of v n q h'] v \<open>dec_basic data t v s = None\<close>
          show ?thesis by simp
        qed
      next
        case 2
        then have "decode env grow data (Suc n) t v s =
            dec_kind env grow (decode env grow data n) (zero env n) data t v s"
          using None composite_not_ptr by (auto split: ty.split)
        with dec_kind_safe [OF Suc.IH _ h v w 2] zero_vty show ?thesis by metis
      qed
    qed
  qed
qed

text \<open>C10: registering a type is enough for it never to panic, provided its parts are not among those
  the check overlooks: on a well-typed heap no value of the type, shared or cyclic, makes
  \<open>Marshal\<close> panic, and no bytes whatsoever make \<open>Unmarshal\<close> panic; whether it succeeds or stops
  at an error, the location and the whole heap stay well typed.\<close>

theorem registered_types_are_safe:
  assumes "CheckRegisterType env k t = Accept" and "tame_env env" and "tame t"
    and "hty env P A h" and "vty env P A t v"
  shows "calm (Marshal h n v) \<and>
    safe env P A (\<lambda>P A. vty env P A t) (Unmarshal env grow n data t v h)"
proof
  from assms(1) have "CheckRegisterTypeInner env k t = Accept"
    by (auto simp: CheckRegisterType_def split: ty.splits if_splits)
  from accepted_wire [OF assms(2) this assms(3)] have w: "wire env t" .
  from encode_calm [OF assms(4) w assms(5)] show "calm (Marshal h n v)" by (simp add: Marshal_def)
  from decode_safe [of env grow data n] w assms(4,5)
  show "safe env P A (\<lambda>P A. vty env P A t) (Unmarshal env grow n data t v h)"
    by (simp add: decodes_safely_def Unmarshal_def)
qed

definition safe_types :: tenv where
  "safe_types = [(''Item'', [(''ID'', TUint16), (''Name'', TString)]),
     (''Bag'', [(''Items'', TSlice (TRef ''Item'')), (''owner'', TOther ''func()''), (''Raw'', TNamed (TSlice TByte))])]"

definition safe_heap :: heap where
  "safe_heap = \<lparr>h_objs = [VStruct [(''Items'', VSlice (Some 0) 1 1), (''owner'', VOther ''func()''), (''Raw'', VNamed (VBytes [1]))]],
     h_arrs = [[VStruct [(''ID'', VUint16 3), (''Name'', VString [65])]]]\<rparr>"

lemma safe_demo:
  "CheckRegisterType safe_types 9 (TPtr (TRef ''Bag'')) = Accept"
  "tame_env safe_types"
  "hty safe_types [TRef ''Bag''] [TRef ''Item''] safe_heap"
proof -
  show "CheckRegisterType safe_types 9 (TPtr (TRef ''Bag'')) = Accept" by code_simp
  show "tame_env safe_types"
    by (auto simp: tame_env_def safe_types_def skipped_def exported_def split: if_splits)
  show "hty safe_types [TRef ''Bag''] [TRef ''Item''] safe_heap"
    by (auto simp: hty_def safe_types_def safe_heap_def vty_ref vty_fields vty_slice vty_named
        basic_ty_def intro!: VBasic)
qed

theorem registered_types_are_safe_witness:
  "calm (Marshal safe_heap 9 (VPtr (Some 0))) \<and>
   safe safe_types [TRef ''Bag''] [TRef ''Item''] (\<lambda>P A. vty safe_types P A (TPtr (TRef ''Bag'')))
     (Unmarshal safe_types (\<lambda>_ c. c) 9 [1, 0, 7] (TPtr (TRef ''Bag'')) (VPtr (Some 0)) safe_heap)"
  using registered_types_are_safe [OF safe_demo(1,2) _ safe_demo(3)] by (simp add: vty_ptr del: decode.simps)

end
