(* ===== verification/Encoding_Bounds.thy ===== *)
theory Encoding_Bounds
  imports Encoding
begin

text \<open>
  What decoding reads: the position only moves forward, stays inside the data, and the
  result depends on nothing behind it.
\<close>

section \<open>The position\<close>

definition moves :: "nat \<Rightarrow> dst \<Rightarrow> 'v dec_res \<Rightarrow> bool" where
  "moves len s r \<longleftrightarrow>
     (case r of
        DOk v s' \<Rightarrow> d_off s \<le> d_off s' \<and> d_off s' \<le> max (d_off s) len
      | DErr e v s' \<Rightarrow> d_off s \<le> d_off s' \<and> d_off s' \<le> max (d_off s) len
      | _ \<Rightarrow> True)"

lemma moves_simps [simp]:
  "moves len s (DOk v s') \<longleftrightarrow> d_off s \<le> d_off s' \<and> d_off s' \<le> max (d_off s) len"
  "moves len s (DErr e v s') \<longleftrightarrow> d_off s \<le> d_off s' \<and> d_off s' \<le> max (d_off s) len"
  "moves len s (DPanic m)" "moves len s DDeep"
  by (simp_all add: moves_def)

lemma moves_map [simp]: "moves len s (dec_map f r) = moves len s r"
  by (cases r) simp_all

lemma moves_heap [simp]: "moves len (s\<lparr>d_heap := h\<rparr>) r = moves len s r"
  by (cases r) simp_all

text \<open>\<open>same_upto m r r'\<close>: a success of \<open>r\<close> that ends at or before \<open>m\<close> is also the result \<open>r'\<close>.\<close>

definition same_upto :: "nat \<Rightarrow> 'v dec_res \<Rightarrow> 'v dec_res \<Rightarrow> bool" where
  "same_upto m r r' \<longleftrightarrow> (case r of DOk v s \<Rightarrow> d_off s \<le> m \<longrightarrow> r' = r | _ \<Rightarrow> True)"

lemma same_upto_simps [simp]:
  "same_upto m (DOk v s) r' \<longleftrightarrow> (d_off s \<le> m \<longrightarrow> r' = DOk v s)" "same_upto m (DErr e v s) r'"
  "same_upto m (DPanic p) r'" "same_upto m DDeep r'"
  by (simp_all add: same_upto_def)

lemma same_upto_refl [simp]: "same_upto m r r"
  by (cases r) simp_all

lemma same_upto_map: "same_upto m r r' \<Longrightarrow> same_upto m (dec_map f r) (dec_map f r')"
  by (cases r) simp_all

text \<open>Two inputs that agree on their first \<open>m\<close> bytes.\<close>

definition agree :: "nat \<Rightarrow> bytes \<Rightarrow> bytes \<Rightarrow> bool" where
  "agree m b c \<longleftrightarrow> m \<le> length b \<and> m \<le> length c \<and> take m b = take m c"

lemma agree_part:
  assumes "agree m b c" and "i + k \<le> m" shows "take k (drop i b) = take k (drop i c)"
proof -
  have "take k (drop i x) = drop i (take (i + k) (take m x))" for x :: bytes
    using assms(2) by (simp add: take_drop add.commute min_def)
  then show ?thesis using assms(1) by (simp only: agree_def)
qed

definition tracks :: "bytes \<Rightarrow> nat \<Rightarrow> (dst \<Rightarrow> 'v dec_res) \<Rightarrow> (dst \<Rightarrow> 'v dec_res) \<Rightarrow> bool" where
  "tracks data m d d' \<longleftrightarrow> (\<forall>s. moves (length data) s (d s) \<and> same_upto m (d s) (d' s))"

lemma tracksI: "(\<And>s. moves (length data) s (d s)) \<Longrightarrow> (\<And>s. same_upto m (d s) (d' s)) \<Longrightarrow> tracks data m d d'"
  by (simp add: tracks_def)

lemma tracks_fixed:
  assumes "agree m data data'"
  shows "tracks data m (dec_fixed e k mk data v) (dec_fixed e k mk data' v)"
  using assms agree_part [OF assms]
  by (auto intro!: tracksI simp: dec_fixed_def skip_def rest_def agree_def)

lemma index_zero_iff:
  "index_zero b = Some l \<longleftrightarrow> l < length b \<and> b ! l = 0 \<and> (\<forall>i<l. b ! i \<noteq> 0)"
proof
  assume "index_zero b = Some l"
  then have z: "0 \<in> set b" and l: "l = length (takeWhile (\<lambda>x. x \<noteq> 0) b)"
    by (auto simp: index_zero_def split: if_splits)
  have "takeWhile (\<lambda>x. x \<noteq> 0) b \<noteq> b" using z by (simp add: takeWhile_eq_all_conv)
  then have "l < length b"
    using l length_takeWhile_le [of "\<lambda>x. x \<noteq> 0" b] takeWhile_eq_take [of "\<lambda>x. x \<noteq> 0" b]
    by (cases "length b \<le> l") auto
  moreover from this l have "b ! l = 0" using nth_length_takeWhile by blast
  moreover have "\<forall>i<l. b ! i \<noteq> 0"
    using l takeWhile_nth [of _ "\<lambda>x. x \<noteq> 0" b] by (metis (mono_tags) nth_mem set_takeWhileD)
  ultimately show "l < length b \<and> b ! l = 0 \<and> (\<forall>i<l. b ! i \<noteq> 0)" by blast
next
  assume a: "l < length b \<and> b ! l = 0 \<and> (\<forall>i<l. b ! i \<noteq> 0)"
  then have "0 \<in> set b" by (metis nth_mem)
  moreover have "takeWhile (\<lambda>x. x \<noteq> 0) b = take l b"
    using a by (intro takeWhile_eq_take_P_nth) auto
  ultimately show "index_zero b = Some l" using a by (simp add: index_zero_def)
qed

lemma index_zero_agree:
  assumes "agree m data data'" and "index_zero (drop i data) = Some l" and "i + l + 1 \<le> m"
  shows "index_zero (drop i data') = Some l"
proof -
  have eq: "take (l + 1) (drop i data) = take (l + 1) (drop i data')"
    using assms by (intro agree_part) auto
  have "drop i data' ! j = drop i data ! j" if "j \<le> l" for j
    using arg_cong [OF eq, of "\<lambda>x. x ! j"] that by simp
  moreover have "l < length (drop i data')" using assms(1,3) by (auto simp: agree_def)
  ultimately show ?thesis using assms(2) unfolding index_zero_iff by auto
qed

lemma tracks_string:
  assumes "agree m data data'" shows "tracks data m (dec_string data v) (dec_string data' v)"
proof (rule tracksI)
  fix s
  show "moves (length data) s (dec_string data v s)"
    by (auto simp: dec_string_def skip_def rest_def index_zero_iff split: option.split)
  show "same_upto m (dec_string data v s) (dec_string data' v s)"
  proof (cases "index_zero (drop (d_off s) data)")
    case None
    then show ?thesis by (simp add: dec_string_def rest_def)
  next
    case (Some l)
    show ?thesis
    proof (cases "d_off s + l + 1 \<le> m")
      case True
      with index_zero_agree [OF assms Some] agree_part [OF assms, of "d_off s" l] Some assms show ?thesis
        by (auto simp: dec_string_def skip_def rest_def agree_def)
    qed (use Some in \<open>simp add: dec_string_def skip_def rest_def\<close>)
  qed
qed

lemma tracks_bytes:
  assumes "agree m data data'" shows "tracks data m (dec_bytes data v) (dec_bytes data' v)"
proof (rule tracksI)
  fix s
  show "moves (length data) s (dec_bytes data v s)" by (auto simp: dec_bytes_def Let_def skip_def)
  let ?ll = "unat (get_u16 (take 2 (drop (d_off s) data)))"
  show "same_upto m (dec_bytes data v s) (dec_bytes data' v s)"
  proof (cases "d_off s + 2 + ?ll \<le> m")
    case True
    with agree_part [OF assms, of "d_off s" 2] agree_part [OF assms, of "d_off s + 2" ?ll] assms
    show ?thesis by (auto simp: dec_bytes_def Let_def skip_def rest_def agree_def)
  qed (auto simp: dec_bytes_def Let_def skip_def rest_def)
qed

section \<open>The routines\<close>

lemma tracksD:
  assumes "tracks data m d d'"
  shows "moves (length data) s (d s)" and "same_upto m (d s) (d' s)"
  using assms by (simp_all add: tracks_def)

text \<open>What comes after a step may assume that the step succeeded alike.\<close>

lemma after_step:
  assumes "tracks data m d d'" and "d s = DOk v s'"
    and "d_off s' \<le> m \<Longrightarrow> same_upto m r r'" and "moves (length data) s' r"
  shows "moves (length data) s r" and "d_off s' \<le> m \<Longrightarrow> d' s = DOk v s'"
    and "m < d_off s' \<Longrightarrow> same_upto m r q"
proof -
  from tracksD [OF assms(1), of s] assms(2)
  have o: "d_off s \<le> d_off s'" "d_off s' \<le> max (d_off s) (length data)" "d_off s' \<le> m \<longrightarrow> d' s = DOk v s'"
    by simp_all
  with assms(4) show "moves (length data) s r" by (cases r) auto
  from o show "d_off s' \<le> m \<Longrightarrow> d' s = DOk v s'" by blast
  from assms(4) show "m < d_off s' \<Longrightarrow> same_upto m r q" by (cases r) auto
qed

lemma tracks_fields:
  assumes d: "\<And>t v. tracks data m (d t v) (d' t v)"
  shows "tracks data m (dec_fields d fs vs) (dec_fields d' fs vs)"
proof -
  have "moves (length data) s (dec_fields d fs vs s) \<and>
      same_upto m (dec_fields d fs vs s) (dec_fields d' fs vs s)" for s
  proof (induction fs arbitrary: vs s)
    case (Cons f fs)
    obtain x t where f: "f = (x, t)" by fastforce
    show ?case
    proof (cases vs)
      case (Cons g vs')
      obtain y v where g: "g = (y, v)" by fastforce
      show ?thesis
      proof (cases "skipped x \<or> \<not> exported x")
        case True
        with Cons.IH [where vs = vs' and s = s] f g Cons show ?thesis by (auto intro: same_upto_map)
      next
        case False
        show ?thesis
        proof (cases "d t v s")
          case (DOk w s')
          let ?r = "dec_map (\<lambda>r. (y, w) # r) (dec_fields d fs vs' s')"
          and ?r' = "dec_map (\<lambda>r. (y, w) # r) (dec_fields d' fs vs' s')"
          have "same_upto m ?r ?r'" "moves (length data) s' ?r"
            using Cons.IH [where vs = vs' and s = s'] by (auto intro: same_upto_map)
          note step = after_step [OF d DOk this]
          show ?thesis
          proof (cases "d_off s' \<le> m")
            case True
            with step(1,2) \<open>same_upto m ?r ?r'\<close> False f g Cons DOk show ?thesis by simp
          next
            case late: False
            with step(1,3) False f g Cons DOk show ?thesis by simp
          qed
        next
          case (DErr e w s')
          with tracksD(1) [OF d, of s t v] False f g Cons show ?thesis by simp
        qed (use False f g Cons in simp_all)
      qed
    qed (simp add: f)
  qed simp
  then show ?thesis by (simp add: tracks_def)
qed

lemma tracks_loop:
  assumes d: "\<And>v. tracks data m (d v) (d' v)"
  shows "tracks data m (dec_loop grow d z k i vv sl) (dec_loop grow d' z k i vv sl)"
proof -
  have "moves (length data) s (dec_loop grow d z k i vv sl s) \<and>
      same_upto m (dec_loop grow d z k i vv sl s) (dec_loop grow d' z k i vv sl s)" for s
  proof (induction k arbitrary: i vv sl s)
    case (Suc k)
    show ?case
    proof (cases "d vv s")
      case (DOk w s')
      obtain sl' h' where a: "append1 grow z sl w (d_heap s') = (sl', h')" by fastforce
      let ?r = "\<lambda>d. dec_loop grow d z k (i + 1) w sl' (s'\<lparr>d_heap := h'\<rparr>)"
      have ih: "same_upto m (?r d) (?r d')" "moves (length data) s' (?r d)"
        using Suc.IH [where i = "i + 1" and vv = w and sl = sl' and s = "s'\<lparr>d_heap := h'\<rparr>"] by simp_all
      note step = after_step [OF d DOk ih]
      show ?thesis
      proof (cases "d_off s' \<le> m")
        case True
        with step(1,2) ih(1) DOk a show ?thesis by simp
      next
        case False
        with step(1,3) DOk a show ?thesis by simp
      qed
    next
      case (DErr e w s')
      with tracksD(1) [OF d, of s vv] show ?thesis by simp
    qed simp_all
  qed simp
  then show ?thesis by (simp add: tracks_def)
qed

lemma tracks_array:
  assumes "agree m data data'" and d: "\<And>v. tracks data m (d v) (d' v)"
  shows "tracks data m (dec_array grow d z data v) (dec_array grow d' z data' v)"
proof -
  have "moves (length data) s (dec_array grow d z data v s) \<and>
      same_upto m (dec_array grow d z data v s) (dec_array grow d' z data' v s)" for s
  proof (cases "length data < d_off s + 2 \<or> z = None")
    case True
    then show ?thesis by (auto simp: dec_array_def Let_def)
  next
    case False
    then obtain w where w: "z = Some w" "d_off s + 2 \<le> length data" by auto
    let ?ll = "\<lambda>data. unat (get_u16 (take 2 (rest data s)))"
    let ?sl = "case v of VSlice a _ cap \<Rightarrow> VSlice a 0 cap | VBytes _ \<Rightarrow> VBytes [] | _ \<Rightarrow> v"
    let ?r = "dec_loop grow d w (?ll data) 0 w ?sl (skip 2 s)"
    note l = tracksD [OF tracks_loop [OF d], where s = "skip 2 s"]
    from l(1) [where grow1 = grow and z1 = w and k1 = "?ll data" and i1 = 0 and vv1 = w and sl1 = ?sl] w have m: "moves (length data) (skip 2 s) ?r" by simp
    then have "moves (length data) s ?r" using w by (cases ?r) (auto simp: skip_def)
    moreover have "same_upto m ?r (dec_array grow d' z data' v s)"
    proof (cases "d_off s + 2 \<le> m")
      case True
      with assms(1) have "?ll data' = ?ll data" "\<not> length data' < d_off s + 2"
        using agree_part [OF assms(1), of "d_off s" 2] by (auto simp: rest_def agree_def)
      with l(2) [where grow1 = grow and z1 = w and k1 = "?ll data" and i1 = 0 and vv1 = w and sl1 = ?sl] w show ?thesis by (simp add: dec_array_def Let_def)
    next
      case False
      with m show ?thesis by (cases ?r) (auto simp: skip_def)
    qed
    ultimately show ?thesis using w by (simp add: dec_array_def Let_def)
  qed
  then show ?thesis by (simp add: tracks_def)
qed

lemma tracks_kind:
  assumes "agree m data data'" and d: "\<And>t v. tracks data m (d t v) (d' t v)"
  shows "tracks data m (dec_kind env grow d z data t v) (dec_kind env grow d' z data' t v)"
proof (rule tracksI)
  fix s
  note f = tracksD [OF tracks_fields [OF d]] and a = tracksD [OF tracks_array [OF assms(1) d]]
  show "moves (length data) s (dec_kind env grow d z data t v s)"
    using f(1) a(1) by (auto simp: dec_kind_def split: ty.split gval.split)
  show "same_upto m (dec_kind env grow d z data t v s) (dec_kind env grow d' z data' t v s)"
    unfolding dec_kind_def using f(2) a(2)
    by (intro same_upto_map) (auto split: ty.split gval.split intro: same_upto_map)
qed

lemma tracks_basic:
  assumes "agree m data data'"
  shows "rel_option (\<lambda>r r'. moves (length data) s r \<and> same_upto m r r') (dec_basic data t v s) (dec_basic data' t v s)"
  using tracksD [OF tracks_fixed [OF assms]] tracksD [OF tracks_string [OF assms]] tracksD [OF tracks_bytes [OF assms]]
  by (auto simp: dec_basic_def split: ty.split)

lemma moves_store [simp]: "moves len s (dec_store v q r) = moves len s r"
  by (cases r) (simp_all add: dec_store_def Let_def)

lemma same_upto_store: "same_upto m r r' \<Longrightarrow> same_upto m (dec_store v q r) (dec_store v q r')"
  by (cases r) (auto simp: dec_store_def Let_def)

lemma tracks_decode:
  assumes "agree m data data'"
  shows "tracks data m (decode env grow data n t v) (decode env grow data' n t v)"
proof (induction n arbitrary: t v)
  case 0
  then show ?case by (simp add: tracks_def)
next
  case (Suc n)
  note k = tracksD [OF tracks_kind [OF assms Suc.IH]]
  have "moves (length data) s (decode env grow data (Suc n) t v s) \<and>
      same_upto m (decode env grow data (Suc n) t v s) (decode env grow data' (Suc n) t v s)" for s
  proof (cases "dec_basic data t v s")
    case (Some r)
    with tracks_basic [OF assms, of s t v] show ?thesis by (cases "dec_basic data' t v s") auto
  next
    case None
    with tracks_basic [OF assms, of s t v] have "dec_basic data' t v s = None"
      by (cases "dec_basic data' t v s") auto
    with None show ?thesis
    proof (cases "\<exists>t'. underlying env t = TPtr t'")
      case True
      then obtain t' where t': "underlying env t = TPtr t'" by blast
      show ?thesis
      proof (cases "dec_object env n t' v (d_heap s)")
        case None
        with t' \<open>dec_basic data t v s = None\<close> \<open>dec_basic data' t v s = None\<close> show ?thesis by simp
      next
        case (Some qh)
        obtain q h where "qh = (q, h)" by fastforce
        with Some t' \<open>dec_basic data t v s = None\<close> \<open>dec_basic data' t v s = None\<close>
          k [where s = "s\<lparr>d_heap := h\<rparr>"]
        show ?thesis by (simp add: same_upto_store)
      qed
    next
      case False
      with k \<open>dec_basic data t v s = None\<close> \<open>dec_basic data' t v s = None\<close> show ?thesis
        by (auto split: ty.split)
    qed
  qed
  then show ?case by (simp add: tracks_def)
qed

section \<open>No byte is read outside\<close>

text \<open>C7: \<open>Unmarshal\<close> stays inside its input: whatever the type, the location and the bytes, the
  position it reports is at most the length of the data, also when it reports an error; and
  when it succeeds after \<open>k\<close> bytes, any input with the same first \<open>k\<close> bytes, cut off there or
  continued differently, gives the very same result.\<close>

theorem unmarshal_in_bounds:
  assumes "Unmarshal env grow n data t v h = r"
  shows "(case r of DOk v' s \<Rightarrow> d_off s \<le> length data | DErr e v' s \<Rightarrow> d_off s \<le> length data | _ \<Rightarrow> True) \<and>
    (case r of DOk v' s \<Rightarrow> \<forall>c. Unmarshal env grow n (take (d_off s) data @ c) t v h = r | _ \<Rightarrow> True)"
proof -
  let ?s = "\<lparr>d_off = 0, d_heap = h\<rparr>"
  have "agree 0 data data" by (simp add: agree_def)
  from tracksD(1) [OF tracks_decode [OF this], of ?s env grow n t v]
  have m: "moves (length data) ?s r" using assms by (simp add: Unmarshal_def)
  have "Unmarshal env grow n (take (d_off s) data @ c) t v h = r" if "r = DOk v' s" for v' s c
  proof -
    have "d_off s \<le> length data" using m that by simp
    then have "agree (d_off s) data (take (d_off s) data @ c)" by (simp add: agree_def)
    from tracksD(2) [OF tracks_decode [OF this], of env grow n t v ?s] that assms
    show ?thesis by (simp add: Unmarshal_def)
  qed
  with m show ?thesis by (cases r) simp_all
qed

theorem unmarshal_in_bounds_witness:
  "case Unmarshal [] (\<lambda>_ c. c) 5 [2, 0, 8, 9] (TSlice TByte) (VBytes []) \<lparr>h_objs = [], h_arrs = []\<rparr> of
     DOk v s \<Rightarrow> v = VBytes [8, 9] \<and> d_off s \<le> 4 | _ \<Rightarrow> False"
proof -
  let ?h = "\<lparr>h_objs = [], h_arrs = []\<rparr>"
  let ?r = "DOk (VBytes [8, 9]) \<lparr>d_off = 4, d_heap = ?h\<rparr>"
  have r: "Unmarshal [] (\<lambda>_ c. c) 5 [2, 0, 8, 9] (TSlice TByte) (VBytes []) ?h = ?r" by code_simp
  from unmarshal_in_bounds [OF r] r show ?thesis by simp
qed

end
