(* ===== verification/Encode_State.thy ===== *)
theory Encode_State
  imports Encoding
begin

text \<open>
  The encoder as the code runs it: one buffer that grows, a pointer level and a set of
  pointers that are raised on the way down and restored by deferred functions on the way up,
  and a pool from which these states are taken and to which they are returned
  (\<open>encode.go\<close>: \<open>encodeState\<close>, \<open>newEncodeState\<close>, \<open>Marshal\<close>, \<open>MarshalToWriter\<close>). The recursive
  \<open>encode\<close> of \<open>Encoding\<close> is its specification.
\<close>

section \<open>The state\<close>

text \<open>The scratch array is left out: it is always filled before it is copied to the buffer.\<close>

record encodeState =
  e_buf :: bytes
  e_ptrLevel :: nat
  e_ptrSeen :: "nat list"

datatype st_res = SOk encodeState | SErr string encodeState | SPanic string | SDeep

definition st_bind :: "st_res \<Rightarrow> (encodeState \<Rightarrow> st_res) \<Rightarrow> st_res" where
  "st_bind r f = (case r of SOk e \<Rightarrow> f e | _ \<Rightarrow> r)"

definition st_wrap :: "string \<Rightarrow> st_res \<Rightarrow> st_res" where
  "st_wrap msg r = (case r of SErr m e \<Rightarrow> SErr (msg @ m) e | _ \<Rightarrow> r)"

text \<open>Deferred functions run on success and on error; a panic ends the call with the state lost.\<close>

definition st_defer :: "(encodeState \<Rightarrow> encodeState) \<Rightarrow> st_res \<Rightarrow> st_res" where
  "st_defer f r = (case r of SOk e \<Rightarrow> SOk (f e) | SErr m e \<Rightarrow> SErr m (f e) | _ \<Rightarrow> r)"

definition st_write :: "bytes \<Rightarrow> encodeState \<Rightarrow> encodeState" where
  "st_write b e = e\<lparr>e_buf := e_buf e @ b\<rparr>"

section \<open>encode, encodeStruct, encodeArray\<close>

fun st_fields :: "(gval \<Rightarrow> encodeState \<Rightarrow> st_res) \<Rightarrow> (string \<times> gval) list \<Rightarrow> encodeState \<Rightarrow> st_res" where
  "st_fields enc [] e = SOk e"
| "st_fields enc ((name, v) # fs) e =
     (if skipped name then st_fields enc fs e
      else if \<not> exported name then SPanic ''cannot return value obtained from unexported field''
      else st_bind (st_wrap (''encode field '' @ name @ '' error: '') (enc v e)) (st_fields enc fs))"

fun st_elems :: "(gval \<Rightarrow> encodeState \<Rightarrow> st_res) \<Rightarrow> nat \<Rightarrow> gval list \<Rightarrow> encodeState \<Rightarrow> st_res" where
  "st_elems enc i [] e = SOk e"
| "st_elems enc i (v # vs) e =
     st_bind (st_wrap (''encode array['' @ dec i @ ''] error: '') (enc v e)) (st_elems enc (Suc i) vs)"

definition st_array :: "(gval \<Rightarrow> encodeState \<Rightarrow> st_res) \<Rightarrow> gval list \<Rightarrow> encodeState \<Rightarrow> st_res" where
  "st_array enc vs e =
     (if 65535 < int (length vs) then SErr ''array too long'' e
      else st_elems enc 0 vs (st_write (put_u16 (word_of_nat (length vs))) e))"

definition st_kind :: "(gval \<Rightarrow> encodeState \<Rightarrow> st_res) \<Rightarrow> heap \<Rightarrow> gval \<Rightarrow> encodeState \<Rightarrow> st_res" where
  "st_kind enc h v e =
     (case unname v of
        VStruct fs \<Rightarrow> st_wrap ''encode type error: '' (st_fields enc fs e)
      | VSlice a len cap \<Rightarrow> st_wrap ''encode type error: '' (st_array enc (slice_elems h a len) e)
      | VBytes b \<Rightarrow> st_wrap ''encode type error: '' (st_array enc (map VByte b) e)
      | _ \<Rightarrow> SPanic ''Unknown type'')"

definition st_basic :: "enc_res \<Rightarrow> encodeState \<Rightarrow> st_res" where
  "st_basic r e = (case r of EOk b \<Rightarrow> SOk (st_write b e) | EErr m \<Rightarrow> SErr m e | EPanic m \<Rightarrow> SPanic m | EDeep \<Rightarrow> SDeep)"

definition level_down :: "encodeState \<Rightarrow> encodeState" where
  "level_down e = e\<lparr>e_ptrLevel := e_ptrLevel e - 1\<rparr>"

fun encode_st :: "heap \<Rightarrow> nat \<Rightarrow> gval \<Rightarrow> encodeState \<Rightarrow> st_res" where
  "encode_st h 0 v e = SDeep"
| "encode_st h (Suc n) v e =
     (case enc_basic v of
        Some r \<Rightarrow> st_basic r e
      | None \<Rightarrow>
          (case unname v of
             VPtr None \<Rightarrow> SErr ''encode nil'' e
           | VPtr (Some p) \<Rightarrow>
               (let e = e\<lparr>e_ptrLevel := e_ptrLevel e + 1\<rparr>
                in st_defer level_down
                     (if startDetectingCyclesAfter < e_ptrLevel e
                      then if p \<in> set (e_ptrSeen e) then SErr ''encode encountered a cycle'' e
                           else st_defer (\<lambda>e. e\<lparr>e_ptrSeen := removeAll p (e_ptrSeen e)\<rparr>)
                                  (st_kind (encode_st h n) h (h_objs h ! p) (e\<lparr>e_ptrSeen := p # e_ptrSeen e\<rparr>))
                      else st_kind (encode_st h n) h (h_objs h ! p) e))
           | _ \<Rightarrow> st_kind (encode_st h n) h v e))"

section \<open>The pool\<close>

text \<open>
  \<open>sync.Pool\<close> may hand out any state that was put back, or none: the choice is an argument.
\<close>

definition newEncodeState :: "encodeState option \<Rightarrow> string + encodeState" where
  "newEncodeState v =
     (case v of
        Some e \<Rightarrow>
          let e = e\<lparr>e_buf := []\<rparr>
          in if e_ptrSeen e \<noteq> [] then Inl ''ptrEncoder.encode should have emptied ptrSeen via defers''
             else Inr (e\<lparr>e_ptrLevel := 0\<rparr>)
      | None \<Rightarrow> Inr \<lparr>e_buf = [], e_ptrLevel = 0, e_ptrSeen = []\<rparr>)"

definition pool_Get :: "nat option \<Rightarrow> encodeState list \<Rightarrow> encodeState option \<times> encodeState list" where
  "pool_Get c pool =
     (case c of
        Some i \<Rightarrow> if i < length pool then (Some (pool ! i), take i pool @ drop (Suc i) pool) else (None, pool)
      | None \<Rightarrow> (None, pool))"

definition pool_Marshal :: "nat option \<Rightarrow> heap \<Rightarrow> nat \<Rightarrow> gval \<Rightarrow> encodeState list \<Rightarrow> enc_res \<times> encodeState list" where
  "pool_Marshal c h n v pool =
     (case pool_Get c pool of (x, pool) \<Rightarrow>
        (case newEncodeState x of
           Inl m \<Rightarrow> (EPanic m, pool)
         | Inr e \<Rightarrow>
             (case encode_st h n v e of
                SErr m e \<Rightarrow> (EErr (''encode error: '' @ m), pool)
              | SPanic m \<Rightarrow> (EPanic m, pool)
              | SDeep \<Rightarrow> (EDeep, pool)
              | SOk e \<Rightarrow> (EOk (e_buf e), e # pool))))"

text \<open>An \<open>io.Writer\<close> answers with a count and perhaps an error.\<close>

datatype write_res = WOk nat | WErr nat string | WPanic string | WDeep

definition MarshalToWriter ::
  "nat option \<Rightarrow> heap \<Rightarrow> nat \<Rightarrow> gval \<Rightarrow> (bytes \<Rightarrow> nat \<times> string option) \<Rightarrow> encodeState list \<Rightarrow> write_res \<times> encodeState list"
where
  "MarshalToWriter c h n v w pool =
     (case pool_Get c pool of (x, pool) \<Rightarrow>
        (case newEncodeState x of
           Inl m \<Rightarrow> (WPanic m, pool)
         | Inr e \<Rightarrow>
             (case encode_st h n v e of
                SErr m e \<Rightarrow> (WErr 0 (''encode error: '' @ m), pool)
              | SPanic m \<Rightarrow> (WPanic m, pool)
              | SDeep \<Rightarrow> (WDeep, pool)
              | SOk e \<Rightarrow>
                  (case w (e_buf e) of
                     (k, Some m) \<Rightarrow> (WErr k (''write error: '' @ m), pool)
                   | (k, None) \<Rightarrow> (WOk k, e # pool)))))"

section \<open>The state machine implements the specification\<close>

text \<open>
  \<open>follows e r s\<close>: the stateful outcome \<open>s\<close> from state \<open>e\<close> is the outcome \<open>r\<close>: the bytes are appended, and
  level and pointers are those of before, with an error as well.
\<close>

definition follows :: "encodeState \<Rightarrow> enc_res \<Rightarrow> st_res \<Rightarrow> bool" where
  "follows e r s \<longleftrightarrow>
     (case r of
        EOk b \<Rightarrow> s = SOk (st_write b e)
      | EErr m \<Rightarrow> (\<exists>b. s = SErr m (st_write b e))
      | EPanic m \<Rightarrow> s = SPanic m
      | EDeep \<Rightarrow> s = SDeep)"

lemma follows_simps [simp]:
  "follows e (EOk b) s \<longleftrightarrow> s = SOk (st_write b e)"
  "follows e (EErr m) s \<longleftrightarrow> (\<exists>b. s = SErr m (st_write b e))"
  "follows e (EPanic m) s \<longleftrightarrow> s = SPanic m" "follows e EDeep s \<longleftrightarrow> s = SDeep"
  by (simp_all add: follows_def)

lemma st_write_simps [simp]:
  "st_write c (st_write b e) = st_write (b @ c) e" "e_ptrLevel (st_write b e) = e_ptrLevel e"
  "e_ptrSeen (st_write b e) = e_ptrSeen e" "e_buf (st_write b e) = e_buf e @ b" "st_write [] e = e"
  by (simp_all add: st_write_def)

lemma follows_here: "follows e (EErr m) (SErr m e)"
  by (auto intro: exI [of _ "[]"])

lemma follows_wrap: "follows e r s \<Longrightarrow> follows e (enc_wrap m r) (st_wrap m s)"
  by (cases r) (auto simp: enc_wrap_def st_wrap_def)

lemma follows_bind:
  assumes "follows e r s" and "\<And>b. follows (st_write b e) (f b) (g (st_write b e))"
  shows "follows e (enc_bind r (\<lambda>b. enc_bind (f b) (\<lambda>c. EOk (b @ c)))) (st_bind s g)"
proof (cases r)
  case (EOk b)
  with assms(1) assms(2) [of b] show ?thesis
    by (cases "f b") (auto simp: enc_bind_def st_bind_def)
qed (use assms(1) in \<open>auto simp: enc_bind_def st_bind_def\<close>)

definition runs :: "(gval \<Rightarrow> enc_res) \<Rightarrow> nat \<Rightarrow> nat list \<Rightarrow> (gval \<Rightarrow> encodeState \<Rightarrow> st_res) \<Rightarrow> bool" where
  "runs enc level seen st \<longleftrightarrow>
     (\<forall>v e. e_ptrLevel e = level \<and> e_ptrSeen e = seen \<longrightarrow> follows e (enc v) (st v e))"

lemma st_fields_follows:
  "runs enc level seen st \<Longrightarrow> e_ptrLevel e = level \<Longrightarrow> e_ptrSeen e = seen \<Longrightarrow>
    follows e (enc_fields enc fs) (st_fields st fs e)"
proof (induction fs arbitrary: e)
  case (Cons f fs)
  obtain x v where f: "f = (x, v)" by fastforce
  from Cons.prems have "follows e (enc v) (st v e)" by (simp add: runs_def)
  from follows_bind [OF follows_wrap [OF this, of "''encode field '' @ x @ '' error: ''"],
      of "\<lambda>_. enc_fields enc fs" "st_fields st fs"] Cons
  show ?case by (simp add: f)
qed simp

lemma st_elems_follows:
  "runs enc level seen st \<Longrightarrow> e_ptrLevel e = level \<Longrightarrow> e_ptrSeen e = seen \<Longrightarrow>
    follows e (enc_elems enc i vs) (st_elems st i vs e)"
proof (induction vs arbitrary: e i)
  case (Cons v vs)
  from Cons.prems have "follows e (enc v) (st v e)" by (simp add: runs_def)
  from follows_bind [OF follows_wrap [OF this, of "''encode array['' @ dec i @ ''] error: ''"],
      of "\<lambda>_. enc_elems enc (Suc i) vs" "st_elems st (Suc i) vs"] Cons
  show ?case by simp
qed simp

lemma st_array_follows:
  assumes "runs enc level seen st" and "e_ptrLevel e = level" and "e_ptrSeen e = seen"
  shows "follows e (enc_array enc vs) (st_array st vs e)"
proof -
  let ?w = "put_u16 (word_of_nat (length vs))"
  have "follows (st_write ?w e) (enc_elems enc 0 vs) (st_elems st 0 vs (st_write ?w e))"
    using assms by (intro st_elems_follows) simp_all
  then show ?thesis
    by (cases "enc_elems enc 0 vs")
      (auto simp: enc_array_def st_array_def enc_bind_def intro: exI [of _ "[]"])
qed

lemma st_kind_follows:
  assumes "runs enc level seen st" and "e_ptrLevel e = level" and "e_ptrSeen e = seen"
  shows "follows e (enc_kind enc h v) (st_kind st h v e)"
  using st_fields_follows [OF assms] st_array_follows [OF assms]
  by (auto simp: enc_kind_def st_kind_def split: gval.split intro: follows_wrap)

lemma encode_st_runs: "runs (encode h n level seen) level seen (encode_st h n)"
proof (induction n arbitrary: level seen)
  case 0
  then show ?case by (simp add: runs_def)
next
  case (Suc n)
  have "follows e (encode h (Suc n) level seen v) (encode_st h (Suc n) v e)"
    if e: "e_ptrLevel e = level" "e_ptrSeen e = seen" for v e
  proof (cases "enc_basic v")
    case (Some r)
    then show ?thesis
      by (cases r) (auto simp: st_basic_def intro: exI [of _ "[]"])
  next
    case None
    note kind = st_kind_follows [OF Suc.IH]
    show ?thesis
    proof (cases "\<exists>p. unname v = VPtr (Some p)")
      case True
      then obtain p where p: "unname v = VPtr (Some p)" by blast
      let ?e = "e\<lparr>e_ptrLevel := Suc level\<rparr>"
      show ?thesis
      proof (cases "startDetectingCyclesAfter < Suc level")
        case late: True
        show ?thesis
        proof (cases "p \<in> set seen")
          case True
          then show ?thesis
            using late p e None
            by (auto simp: st_defer_def level_down_def st_write_def Let_def intro!: exI [of _ "[]"])
        next
          case False
          let ?e = "e\<lparr>e_ptrLevel := Suc level, e_ptrSeen := p # seen\<rparr>"
          from kind [of ?e "Suc level" "p # seen" h "h_objs h ! p"] False late p e None show ?thesis
            by (cases "enc_kind (encode h n (Suc level) (p # seen)) h (h_objs h ! p)")
              (auto simp: st_defer_def level_down_def st_write_def Let_def)
        qed
      next
        case False
        from kind [of ?e "Suc level" seen h "h_objs h ! p"] False p e None show ?thesis
          by (cases "enc_kind (encode h n (Suc level) seen) h (h_objs h ! p)")
            (auto simp: st_defer_def level_down_def st_write_def Let_def)
      qed
    next
      case False
      with None kind [OF e, of h v] show ?thesis
        by (auto split: gval.split option.split intro: exI [of _ "[]"])
    qed
  qed
  then show ?case by (simp add: runs_def)
qed

definition pool_clean :: "encodeState list \<Rightarrow> bool" where
  "pool_clean pool \<longleftrightarrow> list_all (\<lambda>e. e_ptrSeen e = []) pool"

lemma pool_Get_clean:
  assumes "pool_clean pool" and "pool_Get c pool = (x, pool')"
  shows "pool_clean pool'"
    and "newEncodeState x = Inr (case x of None \<Rightarrow> \<lparr>e_buf = [], e_ptrLevel = 0, e_ptrSeen = []\<rparr>
      | Some e \<Rightarrow> e\<lparr>e_buf := [], e_ptrLevel := 0\<rparr>)"
proof -
  from assms have "pool_clean pool' \<and> (\<forall>e. x = Some e \<longrightarrow> e_ptrSeen e = [])"
    by (auto simp: pool_clean_def pool_Get_def list_all_iff split: option.splits if_splits
        dest!: in_set_takeD in_set_dropD)
  then show "pool_clean pool'"
    and "newEncodeState x = Inr (case x of None \<Rightarrow> \<lparr>e_buf = [], e_ptrLevel = 0, e_ptrSeen = []\<rparr>
      | Some e \<Rightarrow> e\<lparr>e_buf := [], e_ptrLevel := 0\<rparr>)"
    by (auto simp: newEncodeState_def Let_def split: option.split)
qed

lemma pooled_encode:
  assumes "pool_clean pool" and "pool_Get c pool = (x, pool')"
  obtains e where "newEncodeState x = Inr e" and "e_ptrSeen e = []" and "e_buf e = []"
    and "follows e (encode h n 0 [] v) (encode_st h n v e)"
proof -
  let ?e = "case x of None \<Rightarrow> \<lparr>e_buf = [], e_ptrLevel = 0, e_ptrSeen = []\<rparr>
      | Some e \<Rightarrow> e\<lparr>e_buf := [], e_ptrLevel := 0\<rparr>"
  have "e_ptrSeen ?e = []"
    using assms by (auto simp: pool_clean_def pool_Get_def list_all_iff split: option.splits if_splits)
  moreover have "e_buf ?e = []" "e_ptrLevel ?e = 0" by (simp_all split: option.split)
  ultimately show ?thesis
    using that [OF pool_Get_clean(2) [OF assms]] encode_st_runs [of h n 0 "[]"] by (simp add: runs_def)
qed

text \<open>C12: reusing encoder states is harmless: whatever state the pool hands out, with whatever bytes and
  level it was put back, \<open>Marshal\<close> returns what the recursive specification returns,
  \<open>MarshalToWriter\<close> writes exactly these bytes or reports the same error, the check that the
  pointer set was emptied never fires, and the pool is as clean afterwards.\<close>

theorem pool_is_transparent:
  assumes "pool_clean pool"
  shows "fst (pool_Marshal c h n v pool) = Marshal h n v \<and>
    pool_clean (snd (pool_Marshal c h n v pool)) \<and>
    fst (MarshalToWriter c h n v w pool) =
      (case Marshal h n v of
         EOk b \<Rightarrow> (case w b of (k, None) \<Rightarrow> WOk k | (k, Some m) \<Rightarrow> WErr k (''write error: '' @ m))
       | EErr m \<Rightarrow> WErr 0 m | EPanic m \<Rightarrow> WPanic m | EDeep \<Rightarrow> WDeep) \<and>
    pool_clean (snd (MarshalToWriter c h n v w pool))"
proof -
  obtain x pool' where g: "pool_Get c pool = (x, pool')" by fastforce
  from assms g obtain e where e: "newEncodeState x = Inr e" "e_ptrSeen e = []" "e_buf e = []"
    "follows e (encode h n 0 [] v) (encode_st h n v e)"
    by (rule pooled_encode)
  have "pool_clean pool'" using assms g by (rule pool_Get_clean)
  with e g show ?thesis
    by (cases "encode h n 0 [] v")
      (auto simp: pool_Marshal_def MarshalToWriter_def Marshal_def enc_wrap_def pool_clean_def
        split: prod.split option.split)
qed

theorem pool_is_transparent_witness:
  "fst (pool_Marshal (Some 0) \<lparr>h_objs = [], h_arrs = []\<rparr> 3 (VUint16 513)
     [\<lparr>e_buf = [9, 9], e_ptrLevel = 7, e_ptrSeen = []\<rparr>]) = EOk [1, 2]"
proof -
  let ?h = "\<lparr>h_objs = [], h_arrs = []\<rparr>"
  have "pool_clean [\<lparr>e_buf = [9, 9], e_ptrLevel = 7, e_ptrSeen = []\<rparr>]" by (simp add: pool_clean_def)
  from pool_is_transparent [OF this] have "fst (pool_Marshal (Some 0) ?h 3 (VUint16 513)
      [\<lparr>e_buf = [9, 9], e_ptrLevel = 7, e_ptrSeen = []\<rparr>]) = Marshal ?h 3 (VUint16 513)" by blast
  also have "\<dots> = EOk [1, 2]" by code_simp
  finally show ?thesis .
qed

end
