(* ===== verification/Crc.thy ===== *)
theory Crc
  imports Prelude
begin

text \<open>
  The checksum of \<open>src/pkg/encoding/crc.go\<close>: the IEEE CRC-32 of a message followed by one
  byte of a secret table, chosen by the message's index. \<open>crc32\<close> is \<open>hash/crc32\<close> with the
  reflected polynomial \<open>0xEDB88320\<close>, computed bit by bit.
\<close>

section \<open>hash/crc32\<close>

definition crc_bit :: "u32 \<Rightarrow> u32" where
  "crc_bit c = (if bit c 0 then drop_bit 1 c XOR 0xEDB88320 else drop_bit 1 c)"

definition crc_byte :: "u32 \<Rightarrow> byte \<Rightarrow> u32" where
  "crc_byte c b = (crc_bit ^^ 8) (c XOR ucast b)"

definition crc32_Update :: "u32 \<Rightarrow> bytes \<Rightarrow> u32" where
  "crc32_Update crc p = NOT (foldl crc_byte (NOT crc) p)"

definition crc32_Checksum :: "bytes \<Rightarrow> u32" where
  "crc32_Checksum p = crc32_Update 0 p"

text \<open>The standard check value.\<close>

lemma crc_bit_step: "crc_bit c = (if odd c then c div 2 XOR 0xEDB88320 else c div 2)"
  by (simp add: crc_bit_def bit_0 drop_bit_eq_div)

lemma crc_bit_8:
  "(crc_bit ^^ 8) c = crc_bit (crc_bit (crc_bit (crc_bit (crc_bit (crc_bit (crc_bit (crc_bit c)))))))"
  by (simp add: eval_nat_numeral)

lemma crc32_check: "crc32_Checksum [0x31, 0x32, 0x33, 0x34, 0x35, 0x36, 0x37, 0x38, 0x39] = 0xCBF43926"
  by (simp add: crc32_Checksum_def crc32_Update_def crc_byte_def crc_bit_8 crc_bit_step)

section \<open>The checksum of a message\<close>

definition EncryptCode :: bytes where
  "EncryptCode =
    [0xdc, 0x6e, 0x2d, 0xc4, 0x67, 0x18, 0x3c, 0x9d, 0x5d, 0x26, 0xfe, 0x5c, 0x98, 0x64, 0x8c, 0xea,
     0x6d, 0x25, 0x42, 0x59, 0x79, 0xa7, 0x15, 0xc1, 0x3a, 0x82, 0xde, 0xe3, 0x2e, 0x89, 0x3f, 0xe7,
     0xd5, 0xcc, 0xa1, 0x6b, 0x97, 0xeb, 0x68, 0x1e, 0x01, 0xad, 0x0e, 0x74, 0x10, 0x11, 0x61, 0x2b,
     0x38, 0xb8, 0x4e, 0xc8, 0xa6, 0x8e, 0xce, 0x55, 0xbf, 0x32, 0x0f, 0x87, 0x1b, 0x9f, 0xb9, 0xd8,
     0xf2, 0x5a, 0xe1, 0x9a, 0x62, 0x5b, 0x4d, 0x95, 0x93, 0x49, 0x39, 0xfc, 0xe6, 0x7c, 0xc2, 0xbc,
     0x4c, 0x83, 0x14, 0x86, 0x27, 0x80, 0x17, 0xd7, 0x5e, 0x08, 0x58, 0x4b, 0x73, 0xe2, 0x75, 0x8d,
     0x29, 0x50, 0x8a, 0xd1, 0x88, 0x8b, 0x02, 0xf6, 0x4f, 0x7e, 0x69, 0x9b, 0xb5, 0x00, 0xb4, 0xcf,
     0x84, 0x7b, 0x19, 0x6f, 0xcb, 0x90, 0x37, 0xd6, 0xab, 0xbb, 0x03, 0xa9, 0x43, 0x2c, 0x12, 0x33,
     0x0d, 0x51, 0xed, 0x35, 0xc6, 0x4a, 0xee, 0x70, 0x0a, 0x13, 0x3e, 0x56, 0x1c, 0xfa, 0x91, 0xb0,
     0x16, 0xf4, 0xa5, 0xf8, 0x44, 0x92, 0xc0, 0xff, 0xa4, 0x3d, 0x1f, 0x8f, 0xdb, 0x54, 0xae, 0x46,
     0xc5, 0x6a, 0x2a, 0xb1, 0xe4, 0xaf, 0xa3, 0x3b, 0x1a, 0x60, 0x36, 0x24, 0xd2, 0xb2, 0xcd, 0xca,
     0xe9, 0xb3, 0x9e, 0x53, 0x72, 0x47, 0x57, 0x48, 0xe8, 0x0c, 0x81, 0xac, 0x41, 0xf3, 0x40, 0x52,
     0xc7, 0xf7, 0x34, 0x99, 0xc3, 0x30, 0x06, 0xf1, 0x65, 0xf5, 0xa8, 0xa2, 0x7a, 0x05, 0x6c, 0xd4,
     0x45, 0xd3, 0xec, 0x2f, 0x0b, 0xaa, 0x1d, 0xc9, 0xa0, 0x22, 0xdd, 0x71, 0xdf, 0xb6, 0x96, 0xf0,
     0x23, 0xef, 0xe5, 0x04, 0x21, 0xda, 0x7d, 0x09, 0x20, 0xfd, 0x78, 0xbe, 0xd9, 0x66, 0x7f, 0x85,
     0x31, 0xd0, 0x28, 0x63, 0x5f, 0x07, 0xb7, 0xba, 0x94, 0xe0, 0x9c, 0xbd, 0xf9, 0xfb, 0x76, 0x77]"

definition CRC :: "bytes \<Rightarrow> u32 \<Rightarrow> u32" where
  "CRC p msgIndex =
     crc32_Update (crc32_Checksum p) [EncryptCode ! unat (msgIndex AND 0xff)]"

section \<open>Properties of the steps\<close>

lemma crc_bit_inj: "crc_bit c = crc_bit d \<Longrightarrow> c = d"
proof -
  assume eq: "crc_bit c = crc_bit d"
  have top: "bit (crc_bit x) 31 = bit x 0" for x
    using bit_imp_le_length [of x 32] by (auto simp: crc_bit_def bit_simps)
  have low: "bit c 0 = bit d 0" using arg_cong [OF eq, of "\<lambda>x. bit x 31"] by (simp add: top)
  have cancel: "a XOR p = b XOR p \<Longrightarrow> a = b" for a b p :: u32
    by (metis xor.assoc xor.right_neutral xor_self_eq)
  from low have "drop_bit 1 c = drop_bit 1 d"
    using eq by (cases "bit c 0") (simp_all only: crc_bit_def if_True if_False, auto dest: cancel)
  then have "bit c (Suc n) = bit d (Suc n)" for n
    by (metis bit_drop_bit_eq comp_apply plus_1_eq_Suc)
  with low have "bit c n = bit d n" for n by (cases n) simp_all
  then show "c = d" by (auto intro: bit_word_eqI)
qed

lemma crc_pow_inj: "(crc_bit ^^ n) c = (crc_bit ^^ n) d \<Longrightarrow> c = d"
  by (induction n arbitrary: c d) (auto dest: crc_bit_inj)

lemma crc_byte_inj: "crc_byte c a = crc_byte c b \<Longrightarrow> a = b"
proof -
  assume "crc_byte c a = crc_byte c b"
  then have "c XOR ucast a = c XOR (ucast b :: u32)" by (auto simp: crc_byte_def dest: crc_pow_inj)
  then have "c XOR (c XOR ucast a) = c XOR (c XOR (ucast b :: u32))" by simp
  then have eq: "(ucast a :: u32) = ucast b" by (simp flip: xor.assoc)
  show "a = b"
  proof (rule bit_word_eqI)
    fix n assume "n < LENGTH(8)"
    then show "bit a n = bit b n" using arg_cong [OF eq, of "\<lambda>w. bit w n"] by (simp add: bit_simps)
  qed
qed

lemma crc32_Update_append:
  "crc32_Update (crc32_Update c p) q = crc32_Update c (p @ q)"
  by (simp add: crc32_Update_def)

lemma EncryptCode_sorted: "sort (map uint EncryptCode) = [0..255]"
  by code_simp

lemma EncryptCode_table: "length EncryptCode = 256" "distinct EncryptCode"
proof -
  show "length EncryptCode = 256" by (simp add: EncryptCode_def)
  have "distinct (map uint EncryptCode)" using EncryptCode_sorted by (metis distinct_sort distinct_upto)
  then show "distinct EncryptCode" by (simp add: distinct_map)
qed

lemma index_mod: "unat (i AND 0xff :: u32) = unat i mod 256"
proof -
  have "i AND 0xff = take_bit 8 i" by (simp add: take_bit_eq_mask mask_eq_decr_exp)
  then have "i AND 0xff = i mod 256" by (simp add: take_bit_eq_mod)
  then show ?thesis by (simp add: unat_mod)
qed

section \<open>Properties\<close>

text \<open>The checksum of a message is the plain CRC-32 of the message with one table byte
  appended, so the table byte never has to be sent.\<close>

lemma CRC_appends_code:
  "CRC p i = crc32_Checksum (p @ [EncryptCode ! (unat i mod 256)])"
  by (simp only: CRC_def crc32_Checksum_def crc32_Update_append index_mod)

text \<open>C37: a message replayed with another index is told apart, unless the indices agree modulo
  256: the table is a permutation of the bytes, and the last step of the checksum is
  injective in the byte.\<close>

theorem CRC_separates_indices:
  assumes "CRC p i = CRC p j"
  shows "unat i mod 256 = unat j mod 256"
proof -
  let ?x = "foldl crc_byte (NOT 0) p"
  let ?i = "unat i mod 256" and ?j = "unat j mod 256"
  have val: "CRC p k = NOT (crc_byte ?x (EncryptCode ! (unat k mod 256)))" for k
    by (simp add: CRC_def crc32_Checksum_def crc32_Update_def index_mod)
  have "NOT (NOT (crc_byte ?x (EncryptCode ! ?i))) = NOT (NOT (crc_byte ?x (EncryptCode ! ?j)))"
    using assms by (simp only: val)
  then have "crc_byte ?x (EncryptCode ! ?i) = crc_byte ?x (EncryptCode ! ?j)" by simp
  then have "EncryptCode ! ?i = EncryptCode ! ?j" by (rule crc_byte_inj)
  then show ?thesis
    using EncryptCode_table by (simp add: nth_eq_iff_index_eq)
qed

theorem CRC_separates_indices_witness:
  "unat (5 :: u32) mod 256 = unat (261 :: u32) mod 256"
proof -
  have "CRC [1] 5 = CRC [1] 261" by (simp add: CRC_def)
  then show ?thesis by (rule CRC_separates_indices)
qed

end
