(* ===== verification/Stress.thy ===== *)
theory Stress
  imports Agent_Read Encoding
begin

text \<open>
  The stress client, \<open>src/cmd/stress/stress.go\<close>: thousands of connections that send one request
  after another and count the answers. \<open>stressGatewayTCP\<close> and \<open>stressProxy\<close> are the same
  code with other identifiers and another request. Sleeping and logging are left out.
\<close>

section \<open>Counters\<close>

record counters =
  connNum :: u64
  errorNum :: u64
  succNumTmp :: u64
  succNum :: u64
  sendNum :: u64
  qps :: u64

definition counters_zero :: counters where
  "counters_zero = \<lparr>connNum = 0, errorNum = 0, succNumTmp = 0, succNum = 0, sendNum = 0, qps = 0\<rparr>"

definition add_error :: "counters \<Rightarrow> counters" where
  "add_error t = t\<lparr>errorNum := errorNum t + 1\<rparr>"

definition add_succ :: "counters \<Rightarrow> counters" where
  "add_succ t = t\<lparr>succNum := succNum t + 1, succNumTmp := succNumTmp t + 1\<rparr>"

text \<open>The reporter, every five seconds.\<close>

definition stress_report :: "counters \<Rightarrow> counters" where
  "stress_report t = t\<lparr>succNumTmp := 0, qps := succNumTmp t div 5\<rparr>"

section \<open>One request and its answer\<close>

definition stress_buf :: "u16 \<Rightarrow> bytes \<Rightarrow> bytes" where
  "stress_buf msgID data =
     (let dataLen = length data;
          sendBuf = replicate (dataLen + 10) 0;
          sendBuf = splice 10 data sendBuf;
          sendBuf = splice 0 (put_u16 msgID) sendBuf;
          sendBuf = splice 2 (put_u32 (word_of_nat (dataLen + 10))) sendBuf
      in splice 6 (put_u32 0) sendBuf)"

text \<open>
  Reading an answer. The size is not checked: one below ten wraps around, and almost four
  gigabytes are allocated and waited for.
\<close>

definition stress_answer :: "u16 \<Rightarrow> conn \<Rightarrow> counters \<Rightarrow> bool \<times> conn \<times> counters" where
  "stress_answer okID c t =
     (let (msgHeader, err, c) = io_ReadFull 10 c
      in if err \<noteq> None then (False, c, add_error t)
         else if length msgHeader \<noteq> 10 then (False, c, add_error t)
         else let i = get_u16 (take 2 msgHeader);
                  sz = get_u32 (take 4 (drop 2 msgHeader));
                  bodySize = sz - 10;
                  (msgBody, err, c) = io_ReadFull (unat bodySize) c
              in if err \<noteq> None then (False, c, add_error t)
                 else if bodySize \<noteq> word_of_nat (length msgBody) then (False, c, add_error t)
                 else (True, c, if i = okID then add_succ t else t))"

text \<open>One turn of the client's loop: does it go on, the connection, the counters.\<close>

definition stress_round :: "u16 \<Rightarrow> u16 \<Rightarrow> string + bytes \<Rightarrow> conn \<Rightarrow> counters \<Rightarrow> bool \<times> conn \<times> counters" where
  "stress_round reqID okID marshalled c t =
     (case marshalled of
        Inl e \<Rightarrow> (False, c, add_error t)
      | Inr data \<Rightarrow>
          (case conn_Write (stress_buf reqID data) c of
             (Some e, c) \<Rightarrow> (False, c, add_error t)
           | (None, c) \<Rightarrow> stress_answer okID c (t\<lparr>sendNum := sendNum t + 1\<rparr>)))"

text \<open>The requests: a text for the echo, nothing for the time.\<close>

definition EchoRequest :: "bytes \<Rightarrow> gval" where
  "EchoRequest now = VStruct [(''Message'', VString ([228, 189, 160, 229, 165, 189, 58] @ now))]"

definition SyncTimeRequest :: gval where
  "SyncTimeRequest = VStruct []"

definition stress_marshal :: "gval \<Rightarrow> string + bytes" where
  "stress_marshal v = (case Marshal \<lparr>h_objs = [], h_arrs = []\<rparr> 2 v of EOk b \<Rightarrow> Inr b | EErr e \<Rightarrow> Inl e | _ \<Rightarrow> Inl [])"

text \<open>The clients of \<open>stressGatewayTCP\<close> and of \<open>stressProxy\<close>; the text is fixed when a client starts.\<close>

datatype client_kind = EchoClient bytes | TimeClient

definition tcp_round :: "bytes \<Rightarrow> conn \<Rightarrow> counters \<Rightarrow> bool \<times> conn \<times> counters" where
  "tcp_round now = stress_round 1001 1001 (stress_marshal (EchoRequest now))"

definition proxy_round :: "conn \<Rightarrow> counters \<Rightarrow> bool \<times> conn \<times> counters" where
  "proxy_round = stress_round 6832 7832 (stress_marshal SyncTimeRequest)"

definition client_round :: "client_kind \<Rightarrow> conn \<Rightarrow> counters \<Rightarrow> bool \<times> conn \<times> counters" where
  "client_round k = (case k of EchoClient now \<Rightarrow> tcp_round now | TimeClient \<Rightarrow> proxy_round)"

section \<open>What one turn does\<close>

lemma stress_buf_frame: "stress_buf i data = frame i data 0"
  using frame_buf_frame [of i data 0] by (simp add: stress_buf_def frame_buf_def)

lemma stress_answer_shrinks:
  "stress_answer okID c t = (True, c', t') \<Longrightarrow> length (pending c') < length (pending c)"
proof -
  assume a: "stress_answer okID c t = (True, c', t')"
  obtain h e1 c1 where r1: "io_ReadFull 10 c = (h, e1, c1)" by (metis prod_cases3)
  obtain b e2 c2 where r2: "io_ReadFull (unat (get_u32 (take 4 (drop 2 h)) - 10)) c1 = (b, e2, c2)"
    by (metis prod_cases3)
  from a r1 r2 have "e1 = None" "c' = c2" "length h = 10"
    by (auto simp: stress_answer_def Let_def split: if_splits)
  with io_ReadFull_stream [OF r1] io_ReadFull_stream [OF r2] show ?thesis
    by (auto split: if_splits)
qed

lemma conn_Write_pending: "conn_Write b c = (e, c') \<Longrightarrow> pending c' = pending c"
  by (auto simp: conn_Write_def pending_def split: if_splits option.splits)

lemma stress_round_shrinks:
  "stress_round reqID okID r c t = (True, c', t') \<Longrightarrow> length (pending c') < length (pending c)"
  by (auto simp: stress_round_def split: sum.splits prod.splits option.splits
      dest!: stress_answer_shrinks conn_Write_pending)

lemma client_round_shrinks:
  "client_round k c t = (True, c', t') \<Longrightarrow> length (pending c') < length (pending c)"
  by (auto simp: client_round_def tcp_round_def proxy_round_def split: client_kind.splits
      dest: stress_round_shrinks)

text \<open>The client's goroutine: turn after turn, then \<open>conn.Close\<close>.\<close>

function stress_client :: "client_kind \<Rightarrow> conn \<Rightarrow> counters \<Rightarrow> conn \<times> counters" where
  "stress_client k c t =
     (case client_round k c t of
        (True, c, t) \<Rightarrow> stress_client k c t
      | (False, c, t) \<Rightarrow> (conn_Close c, t))"
  by pat_completeness auto
termination
  by (relation "measure (\<lambda>(k, c, t). length (pending c))") (auto intro: client_round_shrinks [OF sym])

declare stress_client.simps [simp del]

section \<open>The echo: client, wire format and read loop together\<close>

lemma answer_frame:
  assumes "pending c = frame i b q @ r" and "length b + 10 < 2 ^ 32"
  shows "\<exists>c'. stress_answer okID c t = (True, c', if i = okID then add_succ t else t) \<and>
    pending c' = r \<and> c_out c' = c_out c \<and> c_room c' = c_room c \<and> c_closed c' = c_closed c"
proof -
  obtain h e1 c1 where r1: "io_ReadFull 10 c = (h, e1, c1)" by (metis prod_cases3)
  note s1 = io_ReadFull_stream [OF r1]
  have len: "length (frame i b q) = length b + 10" by simp
  have h: "h = take 10 (frame i b q)" and p1: "pending c1 = b @ r" and e1: "e1 = None" "length h = 10"
    using s1 assms(1) len by (simp_all add: drop_append)
  have sz: "get_u32 (take 4 (drop 2 h)) = frame_size b" and i: "get_u16 (take 2 h) = i"
    by (simp_all add: h)
  have size: "unat (frame_size b - 10) = length b"
  proof -
    have u: "unat (frame_size b) = length b + 10" using assms(2) by (rule frame_size_exact)
    then have "(10 :: u32) \<le> frame_size b" by (simp add: word_le_nat_alt)
    with u show ?thesis by (simp add: unat_sub)
  qed
  obtain m e2 c2 where r2: "io_ReadFull (length b) c1 = (m, e2, c2)" by (metis prod_cases3)
  from io_ReadFull_stream [OF r2] p1 have m: "m = b" "e2 = None" "pending c2 = r" by simp_all
  have "frame_size b - 10 = word_of_nat (length b)" by (simp flip: size)
  then have "stress_answer okID c t = (True, c2, if i = okID then add_succ t else t)"
    using r1 r2 e1 m size by (simp add: stress_answer_def Let_def sz i)
  moreover have "c_out c2 = c_out c \<and> c_room c2 = c_room c \<and> c_closed c2 = c_closed c"
    using r1 r2 by (auto simp: io_ReadFull_def Let_def split: prod.splits if_splits)
  ultimately show ?thesis using m(3) by blast
qed

lemma answer_end:
  assumes "pending c = []" shows "\<exists>c'. stress_answer okID c t = (False, c', add_error t) \<and> c_out c' = c_out c"
proof -
  obtain h e1 c1 where r1: "io_ReadFull 10 c = (h, e1, c1)" by (metis prod_cases3)
  from io_ReadFull_stream [OF r1] assms have "e1 \<noteq> None" by simp
  moreover have "c_out c1 = c_out c" using r1 by (auto simp: io_ReadFull_def Let_def split: prod.splits if_splits)
  ultimately show ?thesis using r1 by (auto simp: stress_answer_def)
qed

lemma write_open:
  "c_room c = None \<Longrightarrow> \<not> c_closed c \<Longrightarrow> conn_Write b c = (None, c\<lparr>c_out := c_out c @ b\<rparr>)"
  by (simp add: conn_Write_def)

text \<open>Counters after \<open>k\<close> answers and the failing request after them.\<close>

definition after_echo :: "nat \<Rightarrow> counters \<Rightarrow> counters" where
  "after_echo k t = t\<lparr>errorNum := errorNum t + 1, succNumTmp := succNumTmp t + word_of_nat k,
     succNum := succNum t + word_of_nat k, sendNum := sendNum t + word_of_nat (Suc k)\<rparr>"

lemma stress_client_echo:
  assumes "pending c = concat (map msg_frame ms)" and "c_room c = None" and "\<not> c_closed c"
    and "client_round k = stress_round reqID okID (Inr data)"
    and "\<forall>m\<in>set ms. msg_ID (fst m) = okID \<and> length (msg_Body (fst m)) + 10 < 2 ^ 32"
  shows "\<exists>c'. stress_client k c t = (c', after_echo (length ms) t) \<and>
    c_out c' = c_out c @ concat (replicate (Suc (length ms)) (frame reqID data 0)) \<and> c_closed c'"
  using assms
proof (induction ms arbitrary: c t)
  case Nil
  let ?c = "c\<lparr>c_out := c_out c @ frame reqID data 0\<rparr>"
  have "pending ?c = []" using Nil by (simp add: pending_def)
  from answer_end [OF this, of okID] obtain c' where
    "stress_answer okID ?c (t\<lparr>sendNum := sendNum t + 1\<rparr>) = (False, c', add_error (t\<lparr>sendNum := sendNum t + 1\<rparr>))"
    "c_out c' = c_out ?c" by blast
  with Nil show ?case
    by (subst stress_client.simps)
      (auto simp: stress_round_def stress_buf_frame write_open after_echo_def add_error_def conn_Close_def)
next
  case (Cons m ms)
  let ?c = "c\<lparr>c_out := c_out c @ frame reqID data 0\<rparr>" and ?t = "t\<lparr>sendNum := sendNum t + 1\<rparr>"
  have "msg_frame m = frame okID (msg_Body (fst m)) (snd m)"
    using Cons.prems(5) by (simp add: msg_frame_def)
  then have "pending ?c = frame okID (msg_Body (fst m)) (snd m) @ concat (map msg_frame ms)"
    using Cons.prems by (simp add: pending_def)
  from answer_frame [OF this, of okID ?t] Cons.prems(5) obtain c1 where c1:
    "stress_answer okID ?c ?t = (True, c1, add_succ ?t)" "pending c1 = concat (map msg_frame ms)"
    "c_out c1 = c_out ?c" "c_room c1 = c_room ?c" "c_closed c1 = c_closed ?c" by auto
  from Cons.IH [of c1 "add_succ ?t"] c1 Cons.prems obtain c' where c':
    "stress_client k c1 (add_succ ?t) = (c', after_echo (length ms) (add_succ ?t))"
    "c_out c' = c_out c1 @ concat (replicate (Suc (length ms)) (frame reqID data 0))" "c_closed c'"
    by auto
  have "stress_client k c t = stress_client k c1 (add_succ ?t)"
    using Cons.prems(2-4) c1(1)
    by (subst stress_client.simps) (simp add: stress_round_def stress_buf_frame write_open)
  moreover have "after_echo (length ms) (add_succ ?t) = after_echo (length (m # ms)) t"
    by (simp add: after_echo_def add_succ_def)
  ultimately show ?case using c' c1(3) by auto
qed

lemma marshal_echo:
  "0 \<notin> set now \<Longrightarrow> stress_marshal (EchoRequest now) = Inr ([228, 189, 160, 229, 165, 189, 58] @ now @ [0])"
  unfolding stress_marshal_def numeral_2_eq_2
  by (simp add: EchoRequest_def Marshal_def enc_basic_def enc_kind_def skipped_def exported_def
      enc_bind_def enc_wrap_def)

lemma marshal_sync: "stress_marshal SyncTimeRequest = Inr []"
  by code_simp

text \<open>What each kind of client sends, and the identifier it counts as an answer.\<close>

definition client_request :: "client_kind \<Rightarrow> msg" where
  "client_request k = (case k of
     EchoClient now \<Rightarrow> Msg 1001 ([228, 189, 160, 229, 165, 189, 58] @ now @ [0])
   | TimeClient \<Rightarrow> Msg 6832 [])"

definition client_answer :: "client_kind \<Rightarrow> u16" where
  "client_answer k = (case k of EchoClient now \<Rightarrow> 1001 | TimeClient \<Rightarrow> 7832)"

definition clock_text :: "client_kind \<Rightarrow> bool" where
  "clock_text k = (case k of EchoClient now \<Rightarrow> 0 \<notin> set now \<and> length now \<le> 1000 | TimeClient \<Rightarrow> True)"

lemma client_round_request:
  assumes "clock_text k"
  shows "client_round k = stress_round (msg_ID (client_request k)) (client_answer k) (Inr (msg_Body (client_request k)))"
    and "valid_msg (client_request k)"
  using assms
  by (auto simp: client_round_def client_request_def client_answer_def clock_text_def tcp_round_def
      proxy_round_def marshal_echo marshal_sync Msg_def valid_msg_def minID_def maxID_def
      split: client_kind.split)

text \<open>C21: the stress client speaks the gateway's protocol, on both sides of the wire: if the answers on
  its connection are frames as the gateway's writer builds them, it counts every one of them,
  has sent one request more, counts the end of the connection as its one error and closes it;
  and a gateway that reads what it wrote, in whatever pieces, processes exactly these requests,
  each decoded back to the text the client encoded.\<close>

theorem stress_through_gateway:
  assumes "clock_text k" and "concat (c_in c) = concat (map msg_frame ms)" and "c_room c = None"
    and "\<not> c_closed c" and "c_out c = []"
    and "\<forall>m\<in>set ms. msg_ID (fst m) = client_answer k \<and> length (msg_Body (fst m)) + 10 < 2 ^ 32"
    and "concat (c_in g) = c_out (fst (stress_client k c t))" and "\<not> c_closed g"
    and "\<And>m x. plug m x = (Ret None, upd m x)" and "\<And>x. \<not> dis x"
  shows "snd (stress_client k c t) = after_echo (length ms) t \<and> c_closed (fst (stress_client k c t)) \<and>
    snd (snd (loopRead dis plug g s)) = fold upd (replicate (Suc (length ms)) (client_request k)) s"
proof -
  let ?r = "client_request k"
  have "pending c = concat (map msg_frame ms)" using assms(2,4) by (simp add: pending_def)
  from stress_client_echo [OF this assms(3,4) client_round_request(1) [OF assms(1)] assms(6), of t]
  have e: "snd (stress_client k c t) = after_echo (length ms) t" "c_closed (fst (stress_client k c t))"
    "c_out (fst (stress_client k c t)) = concat (replicate (Suc (length ms)) (frame (msg_ID ?r) (msg_Body ?r) 0))"
    using assms(5) by auto
  let ?ms = "replicate (Suc (length ms)) (?r, 0 :: u32)"
  have "concat (c_in g) = concat (map msg_frame ?ms)"
    using assms(7) e(3) by (simp add: msg_frame_def)
  then have "parse_stream (pending g) (fault g) = (map fst ?ms, c_end g)"
    using parse_stream_frames [of ?ms "[]" "c_end g"] assms(8) client_round_request(2) [OF assms(1)]
    by (simp add: pending_def fault_def parse_stream_stop [where r = "c_end g"] parse_frame_def short_err_def)
  then have "(case loopRead dis plug g s of (r, c', s') \<Rightarrow> (r, s')) =
      (Exited (c_end g), fold upd (map fst ?ms) s)"
    by (simp only: loopRead_refines feed_fold [of plug upd dis, OF assms(9,10)] prod.case)
  then have "snd (snd (loopRead dis plug g s)) = fold upd (map fst ?ms) s" by (auto simp: case_prod_beta)
  with e(1,2) show ?thesis by simp
qed

theorem stress_through_gateway_witness:
  "snd (stress_client TimeClient (demo_stream [take 4 (frame 7832 [1, 0, 0, 0] 5), drop 4 (frame 7832 [1, 0, 0, 0] 5)]) counters_zero)
     = after_echo 1 counters_zero"
proof -
  let ?m = "(Msg 7832 [1, 0, 0, 0], 5 :: u32)"
  let ?c = "demo_stream [take 4 (frame 7832 [1, 0, 0, 0] 5), drop 4 (frame 7832 [1, 0, 0, 0] 5)]"
  let ?g = "demo_stream [c_out (fst (stress_client TimeClient ?c counters_zero))]"
  have "clock_text TimeClient" by (simp add: clock_text_def)
  moreover have "concat (c_in ?c) = concat (map msg_frame [?m])"
    by (simp add: demo_stream_def msg_frame_def Msg_def)
  moreover have "concat (c_in ?g) = c_out (fst (stress_client TimeClient ?c counters_zero))"
    by (simp add: demo_stream_def)
  moreover have "c_room ?c = None" "\<not> c_closed ?c" "c_out ?c = []" "\<not> c_closed ?g" by (simp_all add: demo_stream_def)
  ultimately show ?thesis
    using stress_through_gateway [of TimeClient ?c "[?m]" ?g counters_zero
        "\<lambda>m x. (Ret None, x @ [m])" "\<lambda>m x. x @ [m]" "\<lambda>_. False" "[]"]
    by (simp add: client_answer_def Msg_def)
qed

section \<open>The whole client program\<close>

text \<open>
  The counters, the loop variable of the dialling loop, the clients with their connections and
  whether they still run, and whether the interrupt has come. Atomic additions commute, so a
  turn of a client is one step.
\<close>

record stress_prog =
  p_cnt :: counters
  p_dialed :: nat
  p_clients :: "(conn \<times> bool) list"
  p_done :: bool

definition stress_init :: stress_prog where
  "stress_init = \<lparr>p_cnt = counters_zero, p_dialed = 0, p_clients = [], p_done = False\<rparr>"

definition stress_dial :: "conn option \<Rightarrow> stress_prog \<Rightarrow> stress_prog" where
  "stress_dial r s =
     (let s = s\<lparr>p_dialed := p_dialed s + 1\<rparr>
      in case r of
           None \<Rightarrow> s\<lparr>p_cnt := add_error (p_cnt s)\<rparr>
         | Some c \<Rightarrow> s\<lparr>p_cnt := (p_cnt s)\<lparr>connNum := connNum (p_cnt s) + 1\<rparr>,
                       p_clients := p_clients s @ [(c, True)]\<rparr>)"

definition stress_turn :: "client_kind \<Rightarrow> nat \<Rightarrow> stress_prog \<Rightarrow> stress_prog" where
  "stress_turn k i s =
     (case client_round k (fst (p_clients s ! i)) (p_cnt s) of
        (True, c, t) \<Rightarrow> s\<lparr>p_clients := (p_clients s)[i := (c, True)], p_cnt := t\<rparr>
      | (False, c, t) \<Rightarrow> s\<lparr>p_clients := (p_clients s)[i := (conn_Close c, False)], p_cnt := t\<rparr>)"

definition stress_hangup :: "nat \<Rightarrow> stress_prog \<Rightarrow> stress_prog" where
  "stress_hangup i s =
     s\<lparr>p_clients := (p_clients s)[i := (conn_Close (fst (p_clients s ! i)), snd (p_clients s ! i))]\<rparr>"

text \<open>\<open>kind\<close> gives the kind of every client, with the time at which it started.\<close>

inductive stress_step :: "(nat \<Rightarrow> client_kind) \<Rightarrow> nat \<Rightarrow> stress_prog \<Rightarrow> stress_prog \<Rightarrow> bool"
  for kind connectionNums where
  "p_dialed s < connectionNums \<Longrightarrow> stress_step kind connectionNums s (stress_dial r s)"
| "i < length (p_clients s) \<Longrightarrow> snd (p_clients s ! i) \<Longrightarrow>
     stress_step kind connectionNums s (stress_turn (kind i) i s)"
| "stress_step kind connectionNums s (s\<lparr>p_cnt := stress_report (p_cnt s)\<rparr>)"
| "stress_step kind connectionNums s (s\<lparr>p_done := True\<rparr>)"
| "p_done s \<Longrightarrow> i < length (p_clients s) \<Longrightarrow> stress_step kind connectionNums s (stress_hangup i s)"

definition stressGatewayTCP :: "(nat \<Rightarrow> bytes) \<Rightarrow> nat \<Rightarrow> stress_prog \<Rightarrow> stress_prog \<Rightarrow> bool" where
  "stressGatewayTCP now = stress_step (\<lambda>i. EchoClient (now i))"

definition stressProxy :: "nat \<Rightarrow> stress_prog \<Rightarrow> stress_prog \<Rightarrow> bool" where
  "stressProxy = stress_step (\<lambda>i. TimeClient)"

text \<open>The program: which test runs, with how many connections; none for the other types.\<close>

definition stress_main :: "string \<Rightarrow> (nat \<Rightarrow> bytes) \<Rightarrow> (stress_prog \<Rightarrow> stress_prog \<Rightarrow> bool) option" where
  "stress_main StressType now =
     (if StressType = ''gateway_tcp'' then Some (stressGatewayTCP now 5000)
      else if StressType = ''proxy'' then Some (stressProxy 5000)
      else None)"

text \<open>Clients that have stopped.\<close>

definition ended :: "stress_prog \<Rightarrow> nat" where
  "ended s = length (filter (\<lambda>c. \<not> snd c) (p_clients s))"

definition stress_inv :: "nat \<Rightarrow> stress_prog \<Rightarrow> bool" where
  "stress_inv n s \<longleftrightarrow> length (p_clients s) \<le> p_dialed s \<and> p_dialed s \<le> n \<and>
     connNum (p_cnt s) = word_of_nat (length (p_clients s)) \<and>
     errorNum (p_cnt s) = word_of_nat (p_dialed s - length (p_clients s) + ended s) \<and>
     (\<forall>c\<in>set (p_clients s). snd c \<or> c_closed (fst c))"

lemma answer_counts:
  "stress_answer okID c t = (b, c', t') \<Longrightarrow>
    connNum t' = connNum t \<and> errorNum t' = (if b then errorNum t else errorNum t + 1)"
  by (auto simp: stress_answer_def Let_def add_error_def add_succ_def split: prod.splits if_splits)

lemma round_counts:
  "client_round k c t = (b, c', t') \<Longrightarrow>
    connNum t' = connNum t \<and> errorNum t' = (if b then errorNum t else errorNum t + 1)"
  by (auto simp: client_round_def tcp_round_def proxy_round_def stress_round_def add_error_def
      split: client_kind.splits sum.splits prod.splits option.splits dest!: answer_counts)

lemma filter_update:
  assumes "i < length xs"
  shows "length (filter P (xs[i := y])) + (if P (xs ! i) then 1 else 0) =
    length (filter P xs) + (if P y then 1 else 0)"
  using assms
proof (induction xs arbitrary: i)
  case (Cons x xs)
  then show ?case by (cases i) fastforce+
qed simp

lemma stress_inv_step:
  assumes "stress_step kind n s s'" and "stress_inv n s" shows "stress_inv n s'"
  using assms
proof cases
  case (1 r)
  with assms(2) show ?thesis
    by (cases r) (auto simp: stress_inv_def stress_dial_def Let_def add_error_def ended_def Suc_diff_le)
next
  case (2 i)
  obtain b c t where r: "client_round (kind i) (fst (p_clients s ! i)) (p_cnt s) = (b, c, t)" by (metis prod_cases3)
  note n = round_counts [OF r]
  show ?thesis
  proof (cases b)
    case True
    with n r 2 assms(2) filter_update [OF 2(2), of "\<lambda>c. \<not> snd c" "(c, True)"] show ?thesis
      by (auto simp: stress_inv_def stress_turn_def ended_def dest!: set_update_subset_insert [THEN subsetD])
  next
    case False
    with n r 2 assms(2) filter_update [OF 2(2), of "\<lambda>c. \<not> snd c" "(conn_Close c, False)"] show ?thesis
      by (auto simp: stress_inv_def stress_turn_def ended_def conn_Close_def
          dest!: set_update_subset_insert [THEN subsetD])
  qed
next
  case (5 i)
  let ?y = "(conn_Close (fst (p_clients s ! i)), snd (p_clients s ! i))"
  from 5 assms(2) filter_update [OF 5(3), of "\<lambda>c. \<not> snd c" ?y] show ?thesis
    by (auto simp: stress_inv_def stress_hangup_def ended_def conn_Close_def
        dest!: set_update_subset_insert [THEN subsetD])
qed (use assms(2) in \<open>simp_all add: stress_inv_def stress_report_def ended_def\<close>)

lemma stress_inv_run:
  assumes "(stress_step kind n)\<^sup>*\<^sup>* stress_init s" shows "stress_inv n s"
proof -
  have "stress_inv n stress_init" by (simp add: stress_inv_def stress_init_def counters_zero_def ended_def)
  with assms show ?thesis by induction (blast intro: stress_inv_step)+
qed

text \<open>C36: the stress program accounts for every connection once: in every reachable state of either
  test at most 5000 connections were dialled, the connection counter is the number of
  connections made, the error counter is the number of failed dials plus the number of clients
  that have stopped, and a client that has stopped has closed its connection.\<close>

theorem stress_accounting:
  assumes "stress_main StressType now = Some step" and "step\<^sup>*\<^sup>* stress_init s"
  shows "p_dialed s \<le> 5000 \<and> unat (connNum (p_cnt s)) = length (p_clients s) \<and>
    unat (errorNum (p_cnt s)) = p_dialed s - length (p_clients s) + ended s \<and>
    list_all (\<lambda>c. snd c \<or> c_closed (fst c)) (p_clients s)"
proof -
  from assms obtain kind where "(stress_step kind 5000)\<^sup>*\<^sup>* stress_init s"
    by (auto simp: stress_main_def stressGatewayTCP_def stressProxy_def split: if_splits)
  then have i: "stress_inv 5000 s" by (rule stress_inv_run)
  have "ended s \<le> length (p_clients s)" by (simp add: ended_def)
  moreover from i have b: "length (p_clients s) \<le> p_dialed s" "p_dialed s \<le> 5000" by (simp_all add: stress_inv_def)
  ultimately have "p_dialed s - length (p_clients s) + ended s < 2 ^ 64" "length (p_clients s) < 2 ^ 64"
    by simp_all
  then have "unat (word_of_nat (p_dialed s - length (p_clients s) + ended s) :: u64) =
      p_dialed s - length (p_clients s) + ended s"
    "unat (word_of_nat (length (p_clients s)) :: u64) = length (p_clients s)"
    by (simp_all only: unat_of_nat) (simp_all add: take_bit_nat_eq_self)
  with i have "unat (errorNum (p_cnt s)) = p_dialed s - length (p_clients s) + ended s"
    "unat (connNum (p_cnt s)) = length (p_clients s)"
    by (metis stress_inv_def)+
  with i b show ?thesis by (simp add: stress_inv_def list_all_iff)
qed

theorem stress_accounting_witness:
  "unat (errorNum (p_cnt (stress_dial None (stress_dial (Some (demo_stream [])) stress_init)))) = 1"
proof -
  let ?s = "stress_dial (Some (demo_stream [])) stress_init"
  have "stressProxy 5000 stress_init ?s"
    unfolding stressProxy_def by (rule stress_step.intros(1)) (simp add: stress_init_def)
  moreover have "stressProxy 5000 ?s (stress_dial None ?s)"
    unfolding stressProxy_def by (rule stress_step.intros(1)) (simp add: stress_init_def stress_dial_def)
  ultimately have "(stressProxy 5000)\<^sup>*\<^sup>* stress_init (stress_dial None ?s)" by auto
  from stress_accounting [OF _ this, of "''proxy''" "\<lambda>_. []"] show ?thesis
    by (simp add: stress_main_def stress_dial_def stress_init_def ended_def)
qed

end
