(* ===== verification/Report.thy ===== *)
theory Report
  imports System_Props "HOL-Library.Char_ord" "HOL-Library.List_Lexorder"
begin

text \<open>
  The reporter of \<open>src/pkg/metric/metric.go\<close>: the text that a collection makes of the metrics, and
  the goroutine of \<open>Report\<close> with its three tickers.
\<close>

section \<open>The text\<close>

text \<open>\<open>fmt\<close> prints a map with its keys sorted.\<close>

definition go_map_text :: "(string \<times> int) list \<Rightarrow> string" where
  "go_map_text m =
     ''map['' @ concat (map (\<lambda>(i, (k, v)). (if i = 0 then [] else '' '') @ k @ '':'' @ dec_int v)
       (enumerate 0 (sort_key fst m))) @ '']''"

definition report_text :: "int \<Rightarrow> string \<Rightarrow> metric_data \<Rightarrow> string" where
  "report_text now uptime d =
     (let line = (\<lambda>k v. k @ '': '' @ v @ [CHR 0x0A]); u = (\<lambda>w. dec (unat w))
      in line ''key'' (dec_int now) @ line ''uptime'' uptime @
         line ''count connection'' (dec_int (d_connection d)) @
         line ''count public tcp request qps'' (dec_int (d_public_tcp_qps d)) @
         line ''count private http request qps'' (dec_int (d_private_http_qps d)) @
         line ''count goroutine'' (u (d_goroutine d)) @ line ''count free memory'' (u (d_free d)) @
         line ''count released memory'' (u (d_released d)) @ line ''count stack memory'' (u (d_stack d)) @
         line ''count unused memory'' (u (d_unused d)) @ line ''count total memory'' (u (d_total d)) @
         line ''count objects memory'' (u (d_objects d)) @
         line ''count tcp status'' (go_map_text (d_tcp_status d)) @
         line ''p99 public http request latency'' (go_map_text (d_public_p99 d)) @
         ''p99 private http request latency: '' @ go_map_text (d_private_p99 d))"

section \<open>The goroutine of Report\<close>

text \<open>
  \<open>TAlert\<close> is the ticker of the caller's interval, \<open>TMinute\<close> the one whose only action is commented
  out, \<open>TCollect\<close> the one of ten seconds. A panic ends the goroutine with an alert.
\<close>

datatype tick = TAlert | TMinute | TCollect

record reporter =
  rp_met :: metrics
  rp_Data :: string
  rp_alerts :: "string list"
  rp_ended :: bool

definition report_tick :: "(string \<Rightarrow> sample) \<Rightarrow> int \<Rightarrow> string \<Rightarrow> tick \<Rightarrow> reporter \<Rightarrow> reporter" where
  "report_tick read now uptime k s =
     (if rp_ended s then s
      else case k of
        TAlert \<Rightarrow> s\<lparr>rp_alerts := rp_alerts s @ [rp_Data s]\<rparr>
      | TMinute \<Rightarrow> s
      | TCollect \<Rightarrow>
          (case collect read 10 (rp_met s) of
             Panic p \<Rightarrow> s\<lparr>rp_alerts := rp_alerts s @ [''report panic: '' @ p], rp_ended := True\<rparr>
           | Ret m \<Rightarrow>
               s\<lparr>rp_met := m,
                 rp_Data := (case Data m of None \<Rightarrow> [] | Some d \<Rightarrow> report_text now uptime d)\<rparr>))"

section \<open>The reporter keeps going\<close>

text \<open>
  Between two ticks the rest of the gateway counts on: an event is the metrics found at the tick,
  what the runtime reports, the clock, and the ticker.
\<close>

type_synonym report_event = "metrics \<times> (string \<Rightarrow> sample) \<times> int \<times> string \<times> tick"

definition report_event :: "report_event \<Rightarrow> reporter \<Rightarrow> reporter" where
  "report_event ev s = (case ev of (m, read, now, uptime, k) \<Rightarrow> report_tick read now uptime k (s\<lparr>rp_met := m\<rparr>))"

text \<open>What the alerts should be: the text of the latest collection before each.\<close>

fun report_spec :: "report_event list \<Rightarrow> string \<Rightarrow> string list" where
  "report_spec [] d = []"
| "report_spec ((m, read, now, uptime, k) # evs) d =
     (case k of
        TAlert \<Rightarrow> d # report_spec evs d
      | TMinute \<Rightarrow> report_spec evs d
      | TCollect \<Rightarrow>
          report_spec evs (case collect read 10 m of Ret m' \<Rightarrow>
             (case Data m' of None \<Rightarrow> [] | Some x \<Rightarrow> report_text now uptime x) | Panic p \<Rightarrow> d))"

lemma report_events:
  "list_all (\<lambda>ev. metrics_ok (fst ev)) evs \<Longrightarrow> \<not> rp_ended s \<Longrightarrow>
    \<not> rp_ended (fold report_event evs s) \<and>
    rp_alerts (fold report_event evs s) = rp_alerts s @ report_spec evs (rp_Data s)"
proof (induction evs arbitrary: s)
  case (Cons ev evs)
  obtain m read now uptime k where ev: "ev = (m, read, now, uptime, k)" by (metis prod_cases5)
  from Cons.prems have "metrics_ok m" by (simp add: ev)
  then obtain m' where "collect read 10 m = Ret m'" using collect_facts [of m 10 read] by auto
  with Cons.IH [of "report_event ev s"] Cons.prems show ?case
    by (cases k) (simp_all add: ev report_event_def report_tick_def)
qed simp

text \<open>Metrics found in some reachable state of the gateway.\<close>

definition reachable_metrics :: "(goerr \<Rightarrow> string) \<Rightarrow> env \<Rightarrow> metrics \<Rightarrow> bool" where
  "reachable_metrics err_text e m \<longleftrightarrow> (\<exists>ls t. sys_run err_text e ls t \<and> y_met t = m)"



end
