(* ===== verification/Config.thy ===== *)
theory Config
  imports Prelude
begin

text \<open>
  The configuration of the node (\<open>src/pkg/configs/configs.go\<close>, \<open>src/pkg/version/version.go\<close>): the
  entry that the command line and the cloud's metadata service fill, the cache of that
  service's answers, and the text that is shown at the start. Also the part of \<open>encoding/json\<close>
  the program uses to print its records.
\<close>

section \<open>JSON text\<close>

text \<open>
  A string of UTF-8 bytes as \<open>encoding/json\<close> quotes it: the quote, the backslash, control
  characters and the three characters special to HTML are escaped, all other bytes are copied.
  (The two Unicode line separators and bytes that are not UTF-8 are taken not to occur.)
\<close>

definition hex_digit :: "nat \<Rightarrow> char" where
  "hex_digit n = (if n < 10 then char_of (48 + n) else char_of (87 + n))"

definition json_char :: "char \<Rightarrow> string" where
  "json_char c =
     (let n = of_char c :: nat
      in if c = CHR 0x22 then [CHR 0x5C, CHR 0x22]
         else if c = CHR 0x5C then [CHR 0x5C, CHR 0x5C]
         else if n = 8 then [CHR 0x5C, CHR ''b'']
         else if n = 9 then [CHR 0x5C, CHR ''t'']
         else if n = 10 then [CHR 0x5C, CHR ''n'']
         else if n = 12 then [CHR 0x5C, CHR ''f'']
         else if n = 13 then [CHR 0x5C, CHR ''r'']
         else if n < 32 \<or> c = CHR ''<'' \<or> c = CHR ''>'' \<or> c = CHR ''&''
           then [CHR 0x5C, CHR ''u'', CHR ''0'', CHR ''0'', hex_digit (n div 16), hex_digit (n mod 16)]
         else [c])"

definition json_string :: "string \<Rightarrow> string" where
  "json_string s = [CHR 0x22] @ concat (map json_char s) @ [CHR 0x22]"

datatype json = JStr string | JNum nat | JObj "(string \<times> json) list"

fun join :: "string \<Rightarrow> string list \<Rightarrow> string" where
  "join sep [] = []"
| "join sep [x] = x"
| "join sep (x # y # xs) = x @ sep @ join sep (y # xs)"

text \<open>\<open>json.Marshal\<close>, and \<open>json.MarshalIndent\<close> with a tabulator for an object of simple fields.\<close>

fun json_text :: "json \<Rightarrow> string" where
  "json_text (JStr s) = json_string s"
| "json_text (JNum n) = dec n"
| "json_text (JObj fs) =
     ''{'' @ join '','' (map (\<lambda>(k, v). json_string k @ '':'' @ json_text v) fs) @ ''}''"

definition json_indent :: "(string \<times> json) list \<Rightarrow> string" where
  "json_indent fs =
     ''{'' @ [CHR 0x0A] @
     join ('','' @ [CHR 0x0A])
       (map (\<lambda>(k, v). [CHR 0x09] @ json_string k @ '': '' @ json_text v) fs) @
     [CHR 0x0A] @ ''}''"

section \<open>The entry\<close>

record DiscoveryConfig =
  dc_Type :: string
  dc_RedisRegisterKey :: string
  dc_RedisAddress :: string
  dc_RedisPassword :: string

record NodeInfoConfig =
  ni_Env :: string
  ni_PublicIP :: string
  ni_LocalIP :: string
  ni_InstanceName :: string
  ni_InstanceID :: string
  ni_ID :: string
  ni_ServiceType :: string
  ni_ExpireTime :: u64
  ni_ConnectionNum :: u64
  ni_PublicTcpPort :: u64
  ni_PrivateHttpPort :: u64
  ni_ServiceAPIURL :: string
  ni_BuildVersion :: string
  ni_GitVersion :: string
  ni_MetricData :: string

record EntryConfig =
  en_Discovery :: DiscoveryConfig
  en_NodeInfo :: NodeInfoConfig
  en_Env :: string

definition discovery_fields :: "DiscoveryConfig \<Rightarrow> (string \<times> json) list" where
  "discovery_fields d =
     [(''type'', JStr (dc_Type d)), (''redis_register_key'', JStr (dc_RedisRegisterKey d)),
      (''redis_address'', JStr (dc_RedisAddress d)), (''redis_password'', JStr (dc_RedisPassword d))]"

definition node_fields :: "NodeInfoConfig \<Rightarrow> (string \<times> json) list" where
  "node_fields n =
     [(''env'', JStr (ni_Env n)), (''public_ip'', JStr (ni_PublicIP n)), (''local_ip'', JStr (ni_LocalIP n)),
      (''name'', JStr (ni_InstanceName n)), (''instance_id'', JStr (ni_InstanceID n)), (''id'', JStr (ni_ID n)),
      (''service_type'', JStr (ni_ServiceType n)), (''expire_time'', JNum (unat (ni_ExpireTime n))),
      (''connection_num'', JNum (unat (ni_ConnectionNum n))),
      (''public_tcp_port'', JNum (unat (ni_PublicTcpPort n))),
      (''private_http_port'', JNum (unat (ni_PrivateHttpPort n))),
      (''service_api_url'', JStr (ni_ServiceAPIURL n)), (''build_version'', JStr (ni_BuildVersion n)),
      (''git_version'', JStr (ni_GitVersion n)), (''metric_data'', JStr (ni_MetricData n))]"

text \<open>The build's constants, as far as they are set from outside.\<close>

record build =
  v_ENV :: string
  v_VERSION :: string
  v_BUILD_DATE :: string

definition version_default :: build where
  "version_default = \<lparr>v_ENV = ''dev'', v_VERSION = ''0.0.0'', v_BUILD_DATE = []\<rparr>"

section \<open>The metadata cache\<close>

text \<open>
  The state: the entry, the cache, and the requests made so far. \<open>web\<close> is the metadata service:
  its answer may depend on everything asked before. The status code of an answer is not looked
  at, so the body of an error page is a body.
\<close>

record cfg =
  cf_Entry :: EntryConfig
  cf_cache :: "string \<rightharpoonup> string"
  cf_reqs :: "string list"

datatype web_res = GetErr string | ReadErr string | Body string

definition cfg_get :: "(string list \<Rightarrow> string \<Rightarrow> web_res) \<Rightarrow> string \<Rightarrow> cfg \<Rightarrow> (string + string) \<times> cfg" where
  "cfg_get web url c =
     (let url = trim_space url
      in if url = [] then (Inr [], c)
         else case cf_cache c url of
                Some val \<Rightarrow> (Inr val, c)
              | None \<Rightarrow>
                  (let r = web (cf_reqs c) url; c = c\<lparr>cf_reqs := cf_reqs c @ [url]\<rparr>
                   in case r of
                        GetErr e \<Rightarrow> (Inl e, c)
                      | ReadErr e \<Rightarrow> (Inl e, c)
                      | Body val \<Rightarrow> (Inr val, c\<lparr>cf_cache := (cf_cache c)(url \<mapsto> val)\<rparr>)))"

definition url_public_ip :: string where "url_public_ip = ''http://metadata.tencentyun.com/latest/meta-data/public-ipv4''"
definition url_local_ip :: string where "url_local_ip = ''http://metadata.tencentyun.com/latest/meta-data/local-ipv4''"
definition url_name :: string where "url_name = ''http://metadata.tencentyun.com/latest/meta-data/instance-name''"
definition url_instance :: string where "url_instance = ''http://metadata.tencentyun.com/latest/meta-data/instance-id''"

definition node_id :: "string \<Rightarrow> NodeInfoConfig \<Rightarrow> string" where
  "node_id instanceID n =
     instanceID @ ''_'' @ dec (unat (ni_PublicTcpPort n)) @ ''_'' @ dec (unat (ni_PrivateHttpPort n))"

definition set_node :: "build \<Rightarrow> string \<Rightarrow> string \<Rightarrow> string \<Rightarrow> string \<Rightarrow> NodeInfoConfig \<Rightarrow> NodeInfoConfig" where
  "set_node v publicIP localIP instanceName instanceID n =
     n\<lparr>ni_Env := v_ENV v, ni_PublicIP := publicIP, ni_LocalIP := localIP, ni_InstanceName := instanceName,
       ni_InstanceID := instanceID, ni_ID := node_id instanceID n,
       ni_BuildVersion := v_BUILD_DATE v, ni_GitVersion := v_VERSION v\<rparr>"

definition LoadNodeInfo :: "(string list \<Rightarrow> string \<Rightarrow> web_res) \<Rightarrow> build \<Rightarrow> cfg \<Rightarrow> string option \<times> cfg" where
  "LoadNodeInfo web v c =
     (case cfg_get web url_public_ip c of
        (Inl e, c) \<Rightarrow> (Some e, c)
      | (Inr publicIP, c) \<Rightarrow>
     (case cfg_get web url_local_ip c of
        (Inl e, c) \<Rightarrow> (Some e, c)
      | (Inr localIP, c) \<Rightarrow>
     (case cfg_get web url_name c of
        (Inl e, c) \<Rightarrow> (Some e, c)
      | (Inr instanceName, c) \<Rightarrow>
     (case cfg_get web url_instance c of
        (Inl e, c) \<Rightarrow> (Some e, c)
      | (Inr instanceID, c) \<Rightarrow>
          (None, c\<lparr>cf_Entry := (cf_Entry c)\<lparr>en_NodeInfo :=
             set_node v publicIP localIP instanceName instanceID (en_NodeInfo (cf_Entry c))\<rparr>\<rparr>)))))"

definition cfg_validate :: "cfg \<Rightarrow> string option" where
  "cfg_validate c = None"

definition cfg_Init :: "(string list \<Rightarrow> string \<Rightarrow> web_res) \<Rightarrow> build \<Rightarrow> cfg \<Rightarrow> string option \<times> cfg" where
  "cfg_Init web v c =
     (case LoadNodeInfo web v c of
        (Some e, c) \<Rightarrow> (Some e, c)
      | (None, c) \<Rightarrow> (cfg_validate c, c))"

definition GetNodeInfo :: "cfg \<Rightarrow> NodeInfoConfig" where
  "GetNodeInfo c = en_NodeInfo (cf_Entry c)"

definition GetDiscovery :: "cfg \<Rightarrow> DiscoveryConfig" where
  "GetDiscovery c = en_Discovery (cf_Entry c)"

text \<open>What an agent offers of the configuration (\<open>src/pkg/agent/agent.go\<close>).\<close>

definition agent_GetDiscoveryConfig :: "cfg \<Rightarrow> DiscoveryConfig" where
  "agent_GetDiscoveryConfig c = GetDiscovery c"

definition agent_GetNodeInfoConfig :: "cfg \<Rightarrow> NodeInfoConfig" where
  "agent_GetNodeInfoConfig c = GetNodeInfo c"

definition agent_GetSID :: "cfg \<Rightarrow> string" where
  "agent_GetSID c = (let config = GetNodeInfo c in ni_ID config)"

definition cfg_Show :: "cfg \<Rightarrow> string" where
  "cfg_Show c =
     (let discoveryInfo = (GetDiscovery c)\<lparr>dc_RedisPassword := ''***''\<rparr>
      in ''load node info:'' @ [CHR 0x0A] @ json_indent (node_fields (GetNodeInfo c)) @ [CHR 0x0A, CHR 0x0A] @
         ''load discovery info:'' @ [CHR 0x0A] @ json_indent (discovery_fields discoveryInfo) @ [CHR 0x0A])"

section \<open>Properties\<close>

definition metadata_urls :: "string list" where
  "metadata_urls = [url_public_ip, url_local_ip, url_name, url_instance]"

lemma urls_trimmed: "u \<in> set metadata_urls \<Longrightarrow> trim_space u = u \<and> u \<noteq> []"
  by (auto simp: metadata_urls_def url_public_ip_def url_local_ip_def url_name_def url_instance_def; code_simp)

lemma urls_distinct: "distinct metadata_urls"
  by code_simp

text \<open>One look-up: a cached value needs no request; a value obtained is cached.\<close>

lemma cfg_get_url:
  assumes "u \<in> set metadata_urls" and "cfg_get web u c = (r, c')"
  shows "cf_Entry c' = cf_Entry c"
    and "cf_reqs c' = cf_reqs c @ (if cf_cache c u = None then [u] else [])"
    and "\<And>val. r = Inr val \<Longrightarrow> cf_cache c' = (cf_cache c)(u \<mapsto> val)"
    and "\<And>val. cf_cache c u = Some val \<Longrightarrow> r = Inr val \<and> c' = c"
    and "\<And>e. r = Inl e \<Longrightarrow> cf_cache c' = cf_cache c"
  using assms(2) urls_trimmed [OF assms(1)]
  by (auto simp: cfg_get_def Let_def split: option.splits web_res.splits)

lemma cfg_get_cached:
  "u \<in> set metadata_urls \<Longrightarrow> cf_cache c u = Some val \<Longrightarrow> cfg_get web u c = (Inr val, c)"
  using urls_trimmed [of u] by (simp add: cfg_get_def)

lemma LoadNodeInfo_cached:
  assumes "cf_cache c url_public_ip = Some a" and "cf_cache c url_local_ip = Some b"
    and "cf_cache c url_name = Some n" and "cf_cache c url_instance = Some i"
  shows "LoadNodeInfo web v c = (None, c\<lparr>cf_Entry := (cf_Entry c)\<lparr>en_NodeInfo :=
    set_node v a b n i (en_NodeInfo (cf_Entry c))\<rparr>\<rparr>)"
  using assms by (simp add: LoadNodeInfo_def cfg_get_cached metadata_urls_def)

lemma set_node_twice [simp]: "set_node v a b n i (set_node v a b n i x) = set_node v a b n i x"
  by (simp add: set_node_def node_id_def)

text \<open>The four look-ups, one after the other until one fails.\<close>

fun get_all :: "(string list \<Rightarrow> string \<Rightarrow> web_res) \<Rightarrow> string list \<Rightarrow> cfg \<Rightarrow> (string + string list) \<times> cfg" where
  "get_all web [] c = (Inr [], c)"
| "get_all web (u # us) c =
     (case cfg_get web u c of
        (Inl e, c) \<Rightarrow> (Inl e, c)
      | (Inr x, c) \<Rightarrow> (case get_all web us c of (Inl e, c) \<Rightarrow> (Inl e, c) | (Inr xs, c) \<Rightarrow> (Inr (x # xs), c)))"

lemma LoadNodeInfo_get_all:
  "LoadNodeInfo web v c =
     (case get_all web metadata_urls c of
        (Inl e, c) \<Rightarrow> (Some e, c)
      | (Inr xs, c) \<Rightarrow> (None, c\<lparr>cf_Entry := (cf_Entry c)\<lparr>en_NodeInfo :=
          set_node v (xs ! 0) (xs ! 1) (xs ! 2) (xs ! 3) (en_NodeInfo (cf_Entry c))\<rparr>\<rparr>))"
  by (auto simp: LoadNodeInfo_def metadata_urls_def split: prod.split sum.split)

lemma get_all_spec:
  assumes "distinct us" and "set us \<subseteq> set metadata_urls" and "get_all web us c = (r, c')"
  shows "cf_Entry c' = cf_Entry c \<and>
    (\<exists>k. cf_reqs c' = cf_reqs c @ filter (\<lambda>u. cf_cache c u = None) (take k us)) \<and>
    (\<forall>u. u \<notin> set us \<longrightarrow> cf_cache c' u = cf_cache c u) \<and>
    (\<forall>xs. r = Inr xs \<longrightarrow> map (cf_cache c') us = map Some xs)"
  using assms
proof (induction us arbitrary: c r)
  case (Cons u us)
  obtain r1 c1 where g: "cfg_get web u c = (r1, c1)" by fastforce
  note one = cfg_get_url [OF _ g]
  have u: "u \<in> set metadata_urls" "u \<notin> set us" using Cons.prems by auto
  show ?case
  proof (cases r1)
    case (Inl e)
    with Cons.prems(3) g have "c' = c1" "r = Inl e" by simp_all
    with one(1,2) [OF u(1)] one(5) [OF u(1) Inl] show ?thesis
      by (auto intro!: exI [of _ 1])
  next
    case (Inr x)
    obtain r2 where g2: "get_all web us c1 = (r2, c')" and r: "r = (case r2 of Inl e \<Rightarrow> Inl e | Inr xs \<Rightarrow> Inr (x # xs))"
      using Cons.prems(3) g Inr by (cases "get_all web us c1") (auto split: sum.splits)
    have "cf_cache c1 u = Some x" and other: "\<And>w. w \<noteq> u \<Longrightarrow> cf_cache c1 w = cf_cache c w"
      using one(3) [OF u(1) Inr] by simp_all
    moreover from Cons.IH [OF _ _ g2] Cons.prems obtain k where
      "cf_Entry c' = cf_Entry c1" "cf_reqs c' = cf_reqs c1 @ filter (\<lambda>u. cf_cache c1 u = None) (take k us)"
      "\<forall>w. w \<notin> set us \<longrightarrow> cf_cache c' w = cf_cache c1 w" "\<forall>xs. r2 = Inr xs \<longrightarrow> map (cf_cache c') us = map Some xs"
      by auto
    moreover have "filter (\<lambda>u. cf_cache c1 u = None) (take k us) = filter (\<lambda>u. cf_cache c u = None) (take k us)"
      using u(2) other by (intro filter_cong refl) (metis in_set_takeD)
    ultimately show ?thesis
      using one(1,2) [OF u(1)] u(2) r
      by (auto intro!: exI [of _ "Suc k"] split: sum.splits)
  qed
qed simp

text \<open>C34: the node's description is loaded all or nothing, and once: an error of the metadata service
  leaves the configuration untouched; success fills in the four answers, the build and the
  identifier made of the instance and the two ports, and touches nothing else; each address
  is asked at most once and only if its answer is not cached; and once it has succeeded,
  loading again asks nothing and changes nothing, whatever the service would answer by then.\<close>

theorem load_node_info:
  assumes "LoadNodeInfo web v c = (r, c')"
  shows "(case r of
      Some e \<Rightarrow> cf_Entry c' = cf_Entry c
    | None \<Rightarrow> (\<exists>a b n i. cf_cache c' url_public_ip = Some a \<and> cf_cache c' url_local_ip = Some b \<and>
          cf_cache c' url_name = Some n \<and> cf_cache c' url_instance = Some i \<and>
          cf_Entry c' = (cf_Entry c)\<lparr>en_NodeInfo := set_node v a b n i (en_NodeInfo (cf_Entry c))\<rparr>) \<and>
        (\<forall>web'. LoadNodeInfo web' v c' = (None, c'))) \<and>
    (\<exists>k. cf_reqs c' = cf_reqs c @ filter (\<lambda>u. cf_cache c u = None) (take k metadata_urls))"
proof -
  obtain r' c1 where g: "get_all web metadata_urls c = (r', c1)" by fastforce
  note spec = get_all_spec [OF urls_distinct order_refl g]
  show ?thesis
  proof (cases r')
    case (Inl e)
    with assms g spec show ?thesis by (auto simp: LoadNodeInfo_get_all)
  next
    case (Inr xs)
    with spec have "map (cf_cache c1) metadata_urls = map Some xs" by blast
    then obtain a b n i where xs: "xs = [a, b, n, i]" "cf_cache c1 url_public_ip = Some a"
      "cf_cache c1 url_local_ip = Some b" "cf_cache c1 url_name = Some n" "cf_cache c1 url_instance = Some i"
      by (auto simp: metadata_urls_def)
    let ?e = "(cf_Entry c)\<lparr>en_NodeInfo := set_node v a b n i (en_NodeInfo (cf_Entry c))\<rparr>"
    have c': "r = None" "c' = c1\<lparr>cf_Entry := ?e\<rparr>"
      using assms g Inr spec xs(1) by (simp_all add: LoadNodeInfo_get_all)
    have "LoadNodeInfo web' v c' = (None, c')" for web'
      using LoadNodeInfo_cached [of c' a b n i web' v] xs by (simp add: c')
    with c' xs spec show ?thesis by auto
  qed
qed

lemma LoadNodeInfo_entry:
  assumes "LoadNodeInfo web v c = (None, c')"
  obtains a b n i where "cf_Entry c' = (cf_Entry c)\<lparr>en_NodeInfo := set_node v a b n i (en_NodeInfo (cf_Entry c))\<rparr>"
proof -
  obtain r' c1 where g: "get_all web metadata_urls c = (r', c1)" by fastforce
  with assms get_all_spec [OF urls_distinct order_refl g] that show ?thesis
    by (auto simp: LoadNodeInfo_get_all split: sum.splits)
qed

definition demo_node :: NodeInfoConfig where
  "demo_node = \<lparr>ni_Env = [], ni_PublicIP = [], ni_LocalIP = [], ni_InstanceName = [], ni_InstanceID = [],
     ni_ID = [], ni_ServiceType = [], ni_ExpireTime = 0, ni_ConnectionNum = 0, ni_PublicTcpPort = 18001,
     ni_PrivateHttpPort = 18081, ni_ServiceAPIURL = [], ni_BuildVersion = [], ni_GitVersion = [],
     ni_MetricData = []\<rparr>"

definition demo_cfg :: cfg where
  "demo_cfg = \<lparr>cf_Entry = \<lparr>en_Discovery = \<lparr>dc_Type = ''redis'', dc_RedisRegisterKey = ''k'',
       dc_RedisAddress = ''a'', dc_RedisPassword = ''p''\<rparr>, en_NodeInfo = demo_node, en_Env = []\<rparr>,
     cf_cache = Map.empty, cf_reqs = []\<rparr>"

theorem load_node_info_witness:
  "fst (LoadNodeInfo (\<lambda>_ _. Body ''x'') version_default
     (snd (LoadNodeInfo (\<lambda>_ _. Body ''i-7'') version_default demo_cfg))) = None"
proof -
  let ?web = "\<lambda>_ _. Body ''i-7''" and ?c = "snd (LoadNodeInfo (\<lambda>_ _. Body ''i-7'') version_default demo_cfg)"
  have g: "cfg_get ?web u c = (Inr ''i-7'', c\<lparr>cf_reqs := cf_reqs c @ [u], cf_cache := (cf_cache c)(u \<mapsto> ''i-7'')\<rparr>)"
    if "u \<in> set metadata_urls" "cf_cache c u = None" for u c
    using that urls_trimmed [of u] by (simp add: cfg_get_def Let_def)
  have "fst (LoadNodeInfo ?web version_default demo_cfg) = None"
  proof -
    have d: "url_local_ip \<noteq> url_public_ip" "url_name \<noteq> url_public_ip" "url_name \<noteq> url_local_ip"
      "url_instance \<noteq> url_public_ip" "url_instance \<noteq> url_local_ip" "url_instance \<noteq> url_name"
      using urls_distinct by (auto simp: metadata_urls_def)
    with g show ?thesis by (simp add: LoadNodeInfo_def metadata_urls_def demo_cfg_def)
  qed
  then have "LoadNodeInfo ?web version_default demo_cfg = (None, ?c)" by (metis prod.collapse)
  from load_node_info [OF this] show ?thesis by simp
qed

end
