(* ===== verification/Discovery.thy ===== *)
theory Discovery
  imports Config
begin

text \<open>
  Service discovery, \<open>src/pkg/discovery/discovery.go\<close>: the node writes its description to Redis at
  the start and then every five seconds, each time valid for ten. Redis is a parameter:
  \<open>exec\<close> answers a pipeline sent by a client, given all pipelines sent before.
\<close>

section \<open>Redis\<close>

datatype redis_cmd = HSet string string string | Expire string nat

datatype redis_res = ROk | RNil | RErr string

text \<open>A client is what it was opened with: address and password.\<close>

type_synonym redis_client = "string \<times> string"

type_synonym redis_log = "(redis_client \<times> redis_cmd list) list"

section \<open>The closure writeToRedis\<close>

record disc_st =
  ds_oldRedisAddress :: string
  ds_oldPassword :: string
  ds_rdb :: "redis_client option"
  ds_log :: redis_log
  ds_alerts :: "string list"

definition disc_init :: disc_st where
  "disc_init = \<lparr>ds_oldRedisAddress = [], ds_oldPassword = [], ds_rdb = None, ds_log = [], ds_alerts = []\<rparr>"

text \<open>What one beat reads from the rest of the gateway: clock, connection counter, report.\<close>

record beat =
  b_now :: int
  b_connections :: int
  b_data :: string

definition beat_node :: "beat \<Rightarrow> NodeInfoConfig \<Rightarrow> NodeInfoConfig" where
  "beat_node b n =
     n\<lparr>ni_ConnectionNum := word_of_int (b_connections b), ni_MetricData := b_data b,
       ni_ExpireTime := word_of_int (b_now b + 10)\<rparr>"

definition reconnect :: "DiscoveryConfig \<Rightarrow> disc_st \<Rightarrow> disc_st" where
  "reconnect d s =
     (if ds_oldRedisAddress s \<noteq> dc_RedisAddress d \<or> ds_oldPassword s \<noteq> dc_RedisPassword d
      then s\<lparr>ds_rdb := Some (dc_RedisAddress d, dc_RedisPassword d),
             ds_oldRedisAddress := dc_RedisAddress d, ds_oldPassword := dc_RedisPassword d\<rparr>
      else s)"

definition node_json :: "NodeInfoConfig \<Rightarrow> string" where
  "node_json n = json_text (JObj (node_fields n))"

definition beat_cmds :: "DiscoveryConfig \<Rightarrow> NodeInfoConfig \<Rightarrow> redis_cmd list" where
  "beat_cmds d n =
     [HSet (dc_RedisRegisterKey d) (ni_ID n) (node_json n),
      Expire (dc_RedisRegisterKey d) (86400 * 3)]"

definition writeToRedis ::
  "(redis_log \<Rightarrow> redis_client \<Rightarrow> redis_cmd list \<Rightarrow> redis_res) \<Rightarrow> DiscoveryConfig \<Rightarrow> NodeInfoConfig \<Rightarrow> beat \<Rightarrow>
     disc_st \<Rightarrow> string option \<times> disc_st"
where
  "writeToRedis exec d n b s =
     (let s = reconnect d s
      in case ds_rdb s of
           None \<Rightarrow> (None, s)
         | Some rdb \<Rightarrow>
             (let cmds = beat_cmds d (beat_node b n); r = exec (ds_log s) rdb cmds;
                  s = s\<lparr>ds_log := ds_log s @ [(rdb, cmds)]\<rparr>
              in case r of ROk \<Rightarrow> (None, s) | RNil \<Rightarrow> (None, s) | RErr m \<Rightarrow> (Some m, s)))"

text \<open>A turn of the loop in the goroutine: an error is reported and the loop goes on.\<close>

definition disc_turn ::
  "(redis_log \<Rightarrow> redis_client \<Rightarrow> redis_cmd list \<Rightarrow> redis_res) \<Rightarrow> DiscoveryConfig \<Rightarrow> NodeInfoConfig \<Rightarrow> beat \<Rightarrow>
     disc_st \<Rightarrow> disc_st"
where
  "disc_turn exec d n b s =
     (case writeToRedis exec d n b s of
        (None, s) \<Rightarrow> s
      | (Some m, s) \<Rightarrow> s\<lparr>ds_alerts := ds_alerts s @ [''discovery register to redis fail: '' @ m]\<rparr>)"

text \<open>The result of \<open>RegisterSelf\<close>, the state, and whether the loop was started.\<close>

definition registerSelfToRedis ::
  "(redis_log \<Rightarrow> redis_client \<Rightarrow> redis_cmd list \<Rightarrow> redis_res) \<Rightarrow> DiscoveryConfig \<Rightarrow> NodeInfoConfig \<Rightarrow> beat \<Rightarrow>
     string option \<times> disc_st \<times> bool"
where
  "registerSelfToRedis exec d n b =
     (case writeToRedis exec d n b disc_init of
        (Some m, s) \<Rightarrow> (Some m, s, False)
      | (None, s) \<Rightarrow> (None, s, True))"

definition RegisterSelf ::
  "(redis_log \<Rightarrow> redis_client \<Rightarrow> redis_cmd list \<Rightarrow> redis_res) \<Rightarrow> DiscoveryConfig \<Rightarrow> NodeInfoConfig \<Rightarrow> beat \<Rightarrow>
     string option \<times> disc_st \<times> bool"
where
  "RegisterSelf exec d n b =
     (if dc_Type d = ''redis'' then registerSelfToRedis exec d n b else (None, disc_init, False))"

text \<open>The goroutine: one turn per beat; the configuration may have changed in between.\<close>

definition disc_loop ::
  "(redis_log \<Rightarrow> redis_client \<Rightarrow> redis_cmd list \<Rightarrow> redis_res) \<Rightarrow>
     (DiscoveryConfig \<times> NodeInfoConfig \<times> beat) list \<Rightarrow> disc_st \<Rightarrow> disc_st"
where
  "disc_loop exec turns s = fold (\<lambda>(d, n, b). disc_turn exec d n b) turns s"

section \<open>The client follows the configuration\<close>

definition disc_inv :: "disc_st \<Rightarrow> bool" where
  "disc_inv s \<longleftrightarrow>
     ((ds_oldRedisAddress s \<noteq> [] \<or> ds_oldPassword s \<noteq> []) \<longrightarrow> ds_rdb s \<noteq> None) \<and>
     (\<forall>c. ds_rdb s = Some c \<longrightarrow> c = (ds_oldRedisAddress s, ds_oldPassword s))"

definition configured :: "DiscoveryConfig \<Rightarrow> bool" where
  "configured d \<longleftrightarrow> dc_RedisAddress d \<noteq> [] \<or> dc_RedisPassword d \<noteq> []"

lemma reconnect_inv: "disc_inv s \<Longrightarrow> disc_inv (reconnect d s)"
  by (auto simp: disc_inv_def reconnect_def)

lemma reconnect_client:
  "disc_inv s \<Longrightarrow> configured d \<Longrightarrow> ds_rdb (reconnect d s) = Some (dc_RedisAddress d, dc_RedisPassword d)"
  by (auto simp: disc_inv_def reconnect_def configured_def)

lemma reconnect_log [simp]: "ds_log (reconnect d s) = ds_log s" "ds_alerts (reconnect d s) = ds_alerts s"
  by (simp_all add: reconnect_def)

lemma writeToRedis_log:
  assumes "disc_inv s" and "configured d" and "writeToRedis exec d n b s = (r, s')"
  shows "ds_log s' = ds_log s @ [((dc_RedisAddress d, dc_RedisPassword d), beat_cmds d (beat_node b n))]"
    and "disc_inv s'" and "ds_alerts s' = ds_alerts s"
proof -
  let ?s = "reconnect d s" and ?c = "(dc_RedisAddress d, dc_RedisPassword d)"
  let ?s1 = "?s\<lparr>ds_log := ds_log s @ [(?c, beat_cmds d (beat_node b n))]\<rparr>"
  have "s' = ?s1"
    using assms(3) reconnect_client [OF assms(1,2)]
    by (simp add: writeToRedis_def Let_def split: redis_res.splits)
  moreover have "disc_inv ?s1" using reconnect_inv [OF assms(1), of d] by (simp add: disc_inv_def)
  ultimately show "ds_log s' = ds_log s @ [(?c, beat_cmds d (beat_node b n))]"
    and "disc_inv s'" and "ds_alerts s' = ds_alerts s" by simp_all
qed

definition turn_entry :: "DiscoveryConfig \<times> NodeInfoConfig \<times> beat \<Rightarrow> redis_client \<times> redis_cmd list" where
  "turn_entry t = (case t of (d, n, b) \<Rightarrow> ((dc_RedisAddress d, dc_RedisPassword d), beat_cmds d (beat_node b n)))"

lemma disc_turn_log:
  assumes "disc_inv s" and "configured d"
  shows "ds_log (disc_turn exec d n b s) = ds_log s @ [turn_entry (d, n, b)]" and "disc_inv (disc_turn exec d n b s)"
proof -
  obtain r s' where w: "writeToRedis exec d n b s = (r, s')" by fastforce
  from writeToRedis_log [OF assms w] w
  show "ds_log (disc_turn exec d n b s) = ds_log s @ [turn_entry (d, n, b)]"
    and "disc_inv (disc_turn exec d n b s)"
    by (auto simp: disc_turn_def turn_entry_def disc_inv_def split: option.split)
qed

lemma disc_loop_log:
  "disc_inv s \<Longrightarrow> list_all (\<lambda>(d, n, b). configured d) turns \<Longrightarrow>
    ds_log (disc_loop exec turns s) = ds_log s @ map turn_entry turns"
  by (induction turns arbitrary: s) (auto simp: disc_loop_def disc_turn_log)

text \<open>C29: the registry is kept up to date whatever Redis answers: the first registration and every
  turn of the loop after it send one pipeline each, in order, over a connection opened with the
  address and the password of that moment, which sets the node's own field to its description
  with the current number of connections and an expiry ten seconds ahead; a failure stops
  only the first registration, later ones are reported and do not end the loop.\<close>

theorem registry_updates:
  assumes "dc_Type d = ''redis''" and "configured d" and "RegisterSelf exec d n b = (r, s, started)"
    and "list_all (\<lambda>(d, n, b). configured d) turns"
  shows "started = (r = None) \<and>
    r = (case exec [] (dc_RedisAddress d, dc_RedisPassword d) (beat_cmds d (beat_node b n)) of RErr m \<Rightarrow> Some m | _ \<Rightarrow> None) \<and>
    ds_log (disc_loop exec turns s) = map turn_entry ((d, n, b) # turns)"
proof -
  have i: "disc_inv disc_init" by (simp add: disc_inv_def disc_init_def)
  obtain r' s' where w: "writeToRedis exec d n b disc_init = (r', s')" by fastforce
  with assms(1,3) have r: "r' = r" "s' = s" "started = (r = None)"
    by (auto simp: RegisterSelf_def registerSelfToRedis_def split: option.splits)
  note l = writeToRedis_log [OF i assms(2) w]
  have "ds_log disc_init = []" by (simp add: disc_init_def)
  moreover from w reconnect_client [OF i assms(2)] this
  have "r' = (case exec [] (dc_RedisAddress d, dc_RedisPassword d) (beat_cmds d (beat_node b n)) of RErr m \<Rightarrow> Some m | _ \<Rightarrow> None)"
    by (auto simp: writeToRedis_def Let_def split: redis_res.splits)
  ultimately show ?thesis
    using r l disc_loop_log [OF _ assms(4), of s exec] by (simp add: turn_entry_def)
qed

lemma RegisterSelf_log:
  assumes "RegisterSelf exec d n b = (r, s, started)"
  shows "ds_log s = [] \<or> (\<exists>cl. ds_log s = [(cl, beat_cmds d (beat_node b n))])"
proof -
  obtain r' s' where w: "writeToRedis exec d n b disc_init = (r', s')" by fastforce
  have "ds_log s' = [] \<or> (\<exists>cl. ds_log s' = [(cl, beat_cmds d (beat_node b n))])"
    using w by (auto simp: writeToRedis_def Let_def reconnect_def disc_init_def
        split: option.splits redis_res.splits if_splits)
  with w assms show ?thesis
    by (auto simp: RegisterSelf_def registerSelfToRedis_def disc_init_def split: if_splits option.splits)
qed

definition demo_beat :: "int \<Rightarrow> beat" where
  "demo_beat t = \<lparr>b_now = t, b_connections = 3, b_data = []\<rparr>"

theorem registry_updates_witness:
  "length (ds_log (disc_loop (\<lambda>_ _ _. RErr ''down'') [(GetDiscovery demo_cfg, demo_node, demo_beat 8)]
     (fst (snd (RegisterSelf (\<lambda>_ _ _. RNil) (GetDiscovery demo_cfg) demo_node (demo_beat 3)))))) = 2"
proof -
  let ?d = "GetDiscovery demo_cfg" and ?e = "\<lambda>_ _ _. RNil"
  have c: "dc_Type ?d = ''redis''" "configured ?d" by (simp_all add: GetDiscovery_def demo_cfg_def configured_def)
  obtain r s b where g: "RegisterSelf ?e ?d demo_node (demo_beat 3) = (r, s, b)" by (metis prod_cases3)
  have "ds_log (disc_loop ?e [] s) = map turn_entry [(?d, demo_node, demo_beat 3)]"
    using registry_updates [OF c g, of "[]"] by simp
  moreover from this have "disc_inv s"
    using g c by (auto simp: RegisterSelf_def registerSelfToRedis_def writeToRedis_def Let_def
        reconnect_def disc_init_def disc_inv_def configured_def)
  ultimately show ?thesis
    using disc_loop_log [of s "[(?d, demo_node, demo_beat 8)]" "\<lambda>_ _ _. RErr ''down''"] c g
    by (simp add: disc_loop_def)
qed

section \<open>Staying listed\<close>

text \<open>
  Turns that take time: each starts five seconds after the one before it has ended. The node is
  listed at a time if a description that was sent to its field before is still valid.
\<close>

fun turn_times :: "int \<Rightarrow> int list \<Rightarrow> int list" where
  "turn_times t [] = [t]"
| "turn_times t (d # ds) = t # turn_times (t + d + 5) ds"

definition listed_at ::
  "(int \<times> redis_client \<times> redis_cmd list) list \<Rightarrow> DiscoveryConfig \<Rightarrow> NodeInfoConfig \<Rightarrow> int \<Rightarrow> bool"
where
  "listed_at sent d n x \<longleftrightarrow>
     list_ex (\<lambda>(t, cl, cmds). t \<le> x \<and>
       (\<exists>m. HSet (dc_RedisRegisterKey d) (ni_ID n) (node_json m) \<in> set cmds \<and> x \<le> uint (ni_ExpireTime m))) sent"

lemma turn_times_ne [simp]: "turn_times t ds \<noteq> []"
  by (cases ds) simp_all

lemma turn_times_last: "list_all (\<lambda>d. 0 \<le> d) ds \<Longrightarrow> t \<le> last (turn_times t ds)"
proof (induction ds arbitrary: t)
  case (Cons d ds)
  then have "t + d + 5 \<le> last (turn_times (t + d + 5) ds)" "0 \<le> d" by simp_all
  then show ?case by simp
qed simp

lemma turn_times_bounds:
  "list_all (\<lambda>d. 0 \<le> d) ds \<Longrightarrow> y \<in> set (turn_times t ds) \<Longrightarrow> t \<le> y \<and> y \<le> last (turn_times t ds)"
proof (induction ds arbitrary: t)
  case (Cons d ds)
  have "0 \<le> d" "list_all (\<lambda>d. 0 \<le> d) ds" using Cons.prems(1) by simp_all
  show ?case
  proof (cases "y = t")
    case True
    with turn_times_last [OF Cons.prems(1)] show ?thesis by simp
  next
    case False
    with Cons.prems(2) have "y \<in> set (turn_times (t + d + 5) ds)" by simp
    from Cons.IH [OF \<open>list_all (\<lambda>d. 0 \<le> d) ds\<close> this] \<open>0 \<le> d\<close> show ?thesis by simp
  qed
qed simp

lemma turn_times_cover:
  assumes "list_all (\<lambda>d. 0 \<le> d \<and> d \<le> 5) ds" and "t \<le> x" and "x \<le> last (turn_times t ds) + 10"
  shows "\<exists>y\<in>set (turn_times t ds). y \<le> x \<and> x \<le> y + 10"
  using assms
proof (induction ds arbitrary: t)
  case (Cons d ds)
  have ne: "turn_times (t + d + 5) ds \<noteq> []" by simp
  show ?case
  proof (cases "t + d + 5 \<le> x")
    case True
    with Cons.IH [of "t + d + 5"] Cons.prems ne show ?thesis by auto
  next
    case False
    with Cons.prems show ?thesis by auto
  qed
qed auto

lemma expire_time:
  assumes "0 \<le> b_now b" and "b_now b + 10 < 2 ^ 64"
  shows "uint (ni_ExpireTime (beat_node b n)) = b_now b + 10"
proof -
  have "uint (word_of_int (b_now b + 10) :: u64) = (b_now b + 10) mod 2 ^ 64"
    by (simp only: uint_word_of_int) simp
  moreover have "(b_now b + 10) mod 2 ^ 64 = b_now b + 10" using assms by simp
  moreover have "ni_ExpireTime (beat_node b n) = word_of_int (b_now b + 10)"
    by (simp add: beat_node_def)
  ultimately show ?thesis by metis
qed

text \<open>An update that takes longer than five seconds, as the time limits of the client allow, leaves a gap.\<close>

lemma update_gap:
  assumes "0 \<le> b_now b" and "b_now b' = b_now b + dur + 5" and "b_now b' + 10 < 2 ^ 64"
    and "b_now b + 10 < x" and "x < b_now b'"
  shows "\<not> (b_now b \<le> x \<and> x \<le> uint (ni_ExpireTime (beat_node b n)))" and "\<not> b_now b' \<le> x"
  using expire_time [of b n] assms by simp_all

lemma beat_fields [simp]: "ni_ID (beat_node b n) = ni_ID n"
  by (simp add: beat_node_def)

lemma zip_map_entry: "y = b_now b \<Longrightarrow> b \<in> set bs \<Longrightarrow> (y, f b) \<in> set (zip (map b_now bs) (map f bs))"
  by (induction bs) auto

text \<open>The log of a first registration that succeeds and of the turns after it.\<close>

lemma registered_log:
  assumes "dc_Type d = ''redis''" and "configured d" and "RegisterSelf exec d n b = (None, s, started)"
    and "list_all (\<lambda>(d, n, b). configured d) turns"
  shows "ds_log (disc_loop exec turns s) = map turn_entry ((d, n, b) # turns)"
proof -
  have i: "disc_inv disc_init" by (simp add: disc_inv_def disc_init_def)
  have w: "writeToRedis exec d n b disc_init = (None, s)"
    using assms(1,3) by (auto simp: RegisterSelf_def registerSelfToRedis_def split: option.splits prod.splits)
  have "ds_log disc_init = []" by (simp add: disc_init_def)
  with writeToRedis_log [OF i assms(2) w] disc_loop_log [OF _ assms(4), of s exec] show ?thesis
    by (simp add: turn_entry_def)
qed

text \<open>C25: as long as no update takes longer than five seconds, the node never drops out of the
  registry: from its first registration until ten seconds after its last update, the loop
  has sent a description to the node's own field that has not expired.\<close>

theorem node_stays_listed:
  assumes "dc_Type d = ''redis''" and "configured d" and "RegisterSelf exec d n b = (None, s, started)"
    and "map b_now (b # bs) = turn_times t ds" and "list_all (\<lambda>d. 0 \<le> d \<and> d \<le> 5) ds"
    and "0 \<le> t" and "last (turn_times t ds) + 10 < 2 ^ 64"
    and "t \<le> x" and "x \<le> last (turn_times t ds) + 10"
  shows "listed_at (zip (turn_times t ds) (ds_log (disc_loop exec (map (\<lambda>b. (d, n, b)) bs) s))) d n x"
proof -
  obtain y where y: "y \<in> set (turn_times t ds)" "y \<le> x" "x \<le> y + 10"
    using turn_times_cover [OF assms(5,8,9)] by blast
  then obtain c where c: "c \<in> set (b # bs)" "b_now c = y" unfolding assms(4) [symmetric] by auto
  have "list_all (\<lambda>d. 0 \<le> d) ds" using assms(5) by (rule list.pred_mono_strong) simp
  from turn_times_bounds [OF this y(1)] have "0 \<le> y" "y + 10 < 2 ^ 64" using assms(6,7) by simp_all
  then have "x \<le> uint (ni_ExpireTime (beat_node c n))" using expire_time [of c n] c(2) y(3) by simp
  moreover have "(y, turn_entry (d, n, c)) \<in> set (zip (turn_times t ds) (map (\<lambda>b. turn_entry (d, n, b)) (b # bs)))"
    using zip_map_entry [OF c(2) [symmetric] c(1), of "\<lambda>b. turn_entry (d, n, b)"] by (simp only: assms(4))
  moreover have "ds_log (disc_loop exec (map (\<lambda>b. (d, n, b)) bs) s) = map (\<lambda>b. turn_entry (d, n, b)) (b # bs)"
    using registered_log [OF assms(1-3), of "map (\<lambda>b. (d, n, b)) bs"] assms(2)
    by (simp add: list_all_iff comp_def)
  ultimately show ?thesis
    using y(2) by (force simp: listed_at_def list_ex_iff turn_entry_def beat_cmds_def)
qed

theorem node_stays_listed_witness:
  "listed_at (zip [100, 105, 115, 122] (ds_log (disc_loop (\<lambda>_ _ _. ROk)
     (map (\<lambda>b. (GetDiscovery demo_cfg, demo_node, b)) (map demo_beat [105, 115, 122]))
     (fst (snd (RegisterSelf (\<lambda>_ _ _. ROk) (GetDiscovery demo_cfg) demo_node (demo_beat 100)))))))
   (GetDiscovery demo_cfg) demo_node 118"
proof -
  let ?d = "GetDiscovery demo_cfg" and ?e = "\<lambda>_ _ _. ROk"
  have c: "dc_Type ?d = ''redis''" "configured ?d" by (simp_all add: GetDiscovery_def demo_cfg_def configured_def)
  obtain r s b where g: "RegisterSelf ?e ?d demo_node (demo_beat 100) = (r, s, b)" by (metis prod_cases3)
  then have "r = None"
    by (auto simp: RegisterSelf_def registerSelfToRedis_def writeToRedis_def Let_def split: if_splits option.splits)
  with g have g: "RegisterSelf ?e ?d demo_node (demo_beat 100) = (None, s, b)" by simp
  have "list_all (\<lambda>d. 0 \<le> d \<and> d \<le> 5) [0, 5, 2 :: int]" by simp
  from node_stays_listed [OF c g _ this, of "map demo_beat [105, 115, 122]" 100 118] g
  show ?thesis by (simp add: demo_beat_def)
qed

end
