(* ===== verification/Alert.thy ===== *)
theory Alert
  imports Config Base64
begin

text \<open>
  Alerts: \<open>src/pkg/utils/utils.go\<close> and the web hook of \<open>src/pkg/feishu/feishu.go\<close>. An alert has a key;
  a cache of recent keys keeps the same alert from being sent again within thirty seconds. The
  cache is a library: \<open>hit\<close> says whether it finds a key, given everything that was added to it
  so far (newest first) and the time. HMAC-SHA256 and the web hook's answer are parameters.
\<close>

section \<open>The request\<close>

record feishu_req =
  fr_Timestamp :: string
  fr_Sign :: string
  fr_MsgType :: string
  fr_Text :: string

definition omitempty :: "string \<Rightarrow> string \<Rightarrow> (string \<times> json) list" where
  "omitempty k v = (if v = [] then [] else [(k, JStr v)])"

definition feishu_json :: "feishu_req \<Rightarrow> string" where
  "feishu_json r =
     json_text (JObj ([(''timestamp'', JStr (fr_Timestamp r))] @ omitempty ''sign'' (fr_Sign r) @
       omitempty ''msg_type'' (fr_MsgType r) @ [(''content'', JObj (omitempty ''text'' (fr_Text r)))]))"

definition genSign :: "(bytes \<Rightarrow> bytes \<Rightarrow> bytes) \<Rightarrow> int \<Rightarrow> string \<Rightarrow> string \<times> int" where
  "genSign hmac now secret =
     (let timestamp = now;
          strSign = dec_int timestamp @ [CHR 0x0A] @ secret
      in (b64_encode (hmac (map of_char strSign) []), timestamp))"

section \<open>feishu.Alert\<close>

datatype post_res = PostErr string | BodyErr string | JsonErr string | Reply int string

text \<open>The keys added to the cache with their times, and the posts with time and key, oldest first.\<close>

record alert_st =
  al_hist :: "(int \<times> string) list"
  al_posts :: "(int \<times> string \<times> string) list"

record alert_env =
  ae_hit :: "(int \<times> string) list \<Rightarrow> int \<Rightarrow> string \<Rightarrow> bool"
  ae_hmac :: "bytes \<Rightarrow> bytes \<Rightarrow> bytes"
  ae_post :: "string \<Rightarrow> string \<Rightarrow> post_res"

definition alert_valid :: "string \<Rightarrow> string \<Rightarrow> string \<Rightarrow> string \<Rightarrow> bool" where
  "alert_valid key msg webhookUrl secret \<longleftrightarrow>
     \<not> (trim_space key = [] \<or> trim_space msg = [] \<or> webhookUrl = [] \<or> secret = [])"

definition alert_add :: "int \<Rightarrow> string \<Rightarrow> alert_st \<Rightarrow> alert_st" where
  "alert_add now key s = s\<lparr>al_hist := (now, key) # al_hist s\<rparr>"

text \<open>From the signature on: build the request, post it, look at the answer.\<close>

definition alert_post ::
  "alert_env \<Rightarrow> int \<Rightarrow> string \<Rightarrow> string \<Rightarrow> string \<Rightarrow> string \<Rightarrow> alert_st \<Rightarrow> string option \<times> alert_st"
where
  "alert_post e now key msg webhookUrl secret s =
     (let (sign, timestamp) = genSign (ae_hmac e) now secret;
          body = feishu_json \<lparr>fr_Timestamp = dec_int timestamp, fr_Sign = sign, fr_MsgType = ''text'', fr_Text = msg\<rparr>;
          s = s\<lparr>al_posts := al_posts s @ [(now, key, body)]\<rparr>
      in case ae_post e webhookUrl body of
           PostErr m \<Rightarrow> (Some m, s)
         | BodyErr m \<Rightarrow> (Some m, s)
         | JsonErr m \<Rightarrow> (Some m, s)
         | Reply code m \<Rightarrow> (if code \<noteq> 0 then Some (''feishu error: '' @ m) else None, s))"

definition feishu_Alert ::
  "alert_env \<Rightarrow> int \<Rightarrow> string \<Rightarrow> string \<Rightarrow> string \<Rightarrow> string \<Rightarrow> alert_st \<Rightarrow> string option \<times> alert_st"
where
  "feishu_Alert e now key msg webhookUrl secret s =
     (if \<not> alert_valid key msg webhookUrl secret then (None, s)
      else if ae_hit e (al_hist s) now key then (None, s)
      else alert_post e now key msg webhookUrl secret (alert_add now key s))"

section \<open>utils\<close>

definition alert_url :: string where "alert_url = ''https://open.feishu.cn/open-apis/bot/v2/hook/xxxx''"
definition alert_secret :: string where "alert_secret = ''xxxx''"

definition full_info :: "NodeInfoConfig \<Rightarrow> string \<Rightarrow> string" where
  "full_info n detailMsg =
     ''env: '' @ ni_Env n @ '' instance_name: '' @ ni_InstanceName n @ '' instance_id: '' @ ni_InstanceID n @
     '' local_ip: '' @ ni_LocalIP n @ '' uid: '' @ ni_ID n @ [CHR 0x0A, CHR 0x0A] @ detailMsg"

text \<open>The goroutine that an alert starts: the key and the text it calls \<open>feishu.Alert\<close> with.\<close>

definition utils_AlertLowFrequency :: "NodeInfoConfig \<Rightarrow> string \<Rightarrow> string \<Rightarrow> (string \<times> string) option" where
  "utils_AlertLowFrequency n key detailMsg =
     (let key = trim_space key in if key = [] then None else Some (key, full_info n detailMsg))"

definition utils_AlertAuto :: "NodeInfoConfig \<Rightarrow> string \<Rightarrow> (string \<times> string) option" where
  "utils_AlertAuto n detailMsg = Some (detailMsg, full_info n detailMsg)"

definition utils_AlertPanic ::
  "alert_env \<Rightarrow> int \<Rightarrow> NodeInfoConfig \<Rightarrow> string \<Rightarrow> string \<Rightarrow> alert_st \<Rightarrow> unit go \<times> alert_st"
where
  "utils_AlertPanic e now n stack detailMsg s =
     (let fullInfo = full_info n (''go panic: '' @ detailMsg @ [CHR 0x0A, CHR 0x0A] @ stack);
          (err, s) = feishu_Alert e now detailMsg fullInfo alert_url alert_secret s
      in (Panic detailMsg, s))"

section \<open>Goroutines\<close>

text \<open>
  Looking up a key and adding it are two calls of the cache, so alerts in different goroutines
  interleave between them.
\<close>

datatype alert_pc = ALook | AAdd | APost | ADone

record alert_job =
  aj_key :: string
  aj_msg :: string
  aj_pc :: alert_pc

definition alert_step :: "alert_env \<Rightarrow> int \<Rightarrow> alert_job \<Rightarrow> alert_st \<Rightarrow> alert_job \<times> alert_st" where
  "alert_step e now j s =
     (case aj_pc j of
        ALook \<Rightarrow>
          if \<not> alert_valid (aj_key j) (aj_msg j) alert_url alert_secret \<or> ae_hit e (al_hist s) now (aj_key j)
          then (j\<lparr>aj_pc := ADone\<rparr>, s) else (j\<lparr>aj_pc := AAdd\<rparr>, s)
      | AAdd \<Rightarrow> (j\<lparr>aj_pc := APost\<rparr>, alert_add now (aj_key j) s)
      | APost \<Rightarrow> (j\<lparr>aj_pc := ADone\<rparr>, snd (alert_post e now (aj_key j) (aj_msg j) alert_url alert_secret s))
      | ADone \<Rightarrow> (j, s))"

text \<open>One goroutine alone does what \<open>feishu.Alert\<close> does.\<close>

lemma alert_steps_alone:
  assumes "alert_step e now \<lparr>aj_key = key, aj_msg = msg, aj_pc = ALook\<rparr> s = (j1, s1)"
    and "alert_step e now j1 s1 = (j2, s2)" and "alert_step e now j2 s2 = (j3, s3)"
  shows "aj_pc j3 = ADone \<and> s3 = snd (feishu_Alert e now key msg alert_url alert_secret s)"
proof (cases "\<not> alert_valid key msg alert_url alert_secret \<or> ae_hit e (al_hist s) now key")
  case True
  with assms(1) have "aj_pc j1 = ADone" "s1 = s" by (auto simp: alert_step_def)
  with assms(2,3) have "aj_pc j3 = ADone" "s3 = s" by (auto simp: alert_step_def)
  with True show ?thesis by (auto simp: feishu_Alert_def)
next
  case False
  with assms(1) have "j1 = \<lparr>aj_key = key, aj_msg = msg, aj_pc = AAdd\<rparr>" "s1 = s"
    by (auto simp: alert_step_def)
  with assms(2) have "j2 = \<lparr>aj_key = key, aj_msg = msg, aj_pc = APost\<rparr>" "s2 = alert_add now key s"
    by (auto simp: alert_step_def)
  with assms(3) False show ?thesis by (auto simp: alert_step_def feishu_Alert_def)
qed

text \<open>A schedule: which goroutine makes its next step.\<close>

fun alert_run :: "alert_env \<Rightarrow> int \<Rightarrow> nat list \<Rightarrow> alert_job list \<times> alert_st \<Rightarrow> alert_job list \<times> alert_st" where
  "alert_run e now [] (js, s) = (js, s)"
| "alert_run e now (i # is) (js, s) =
     (case alert_step e now (js ! i) s of (j, s) \<Rightarrow> alert_run e now is (js[i := j], s))"

text \<open>
  Two goroutines with the same alert that both look before either adds both send it, in the
  same instant, however well the cache works.
\<close>

lemma alert_race:
  assumes "alert_valid key msg alert_url alert_secret" and "\<not> ae_hit e [] now key"
  shows "map (\<lambda>p. (fst p, fst (snd p))) (al_posts (snd (alert_run e now [0, 1, 0, 1, 0, 1]
      ([\<lparr>aj_key = key, aj_msg = msg, aj_pc = ALook\<rparr>, \<lparr>aj_key = key, aj_msg = msg, aj_pc = ALook\<rparr>],
       \<lparr>al_hist = [], al_posts = []\<rparr>)))) = [(now, key), (now, key)]"
  using assms
  by (simp add: alert_step_def alert_add_def alert_post_def Let_def genSign_def split: post_res.split)

section \<open>The rate limit\<close>

text \<open>
  What the cache promises: a key is found for thirty seconds, unless thirty thousand other
  additions came after it; and no longer.
\<close>

definition cache_finds :: "alert_env \<Rightarrow> bool" where
  "cache_finds e \<longleftrightarrow>
     (\<forall>newer t key older now. length newer < 30000 \<and> t \<le> now \<and> now < t + 30 \<longrightarrow>
        ae_hit e (newer @ (t, key) # older) now key)"

definition cache_forgets :: "alert_env \<Rightarrow> bool" where
  "cache_forgets e \<longleftrightarrow>
     (\<forall>hist now key. (\<forall>t. (t, key) \<in> set hist \<longrightarrow> t + 30 \<le> now) \<longrightarrow> \<not> ae_hit e hist now key)"

text \<open>Calls one after the other, each with its time, key and text.\<close>

definition alert_call :: "alert_env \<Rightarrow> int \<times> string \<times> string \<Rightarrow> alert_st \<Rightarrow> alert_st" where
  "alert_call e c s = (case c of (now, key, msg) \<Rightarrow> snd (feishu_Alert e now key msg alert_url alert_secret s))"

definition post_keys :: "alert_st \<Rightarrow> (int \<times> string) list" where
  "post_keys s = map (\<lambda>p. (fst p, fst (snd p))) (al_posts s)"

definition spaced :: "(int \<times> string) list \<Rightarrow> bool" where
  "spaced ps \<longleftrightarrow> sorted_wrt (\<lambda>p q. snd p = snd q \<longrightarrow> fst p + 30 \<le> fst q) ps"

lemma alert_call_cases:
  "alert_call e (now, key, msg) s =
     (if alert_valid key msg alert_url alert_secret \<and> \<not> ae_hit e (al_hist s) now key
      then snd (alert_post e now key msg alert_url alert_secret (alert_add now key s)) else s)"
  by (simp add: alert_call_def feishu_Alert_def)

lemma alert_post_fields [simp]:
  "al_hist (snd (alert_post e now key msg u c s)) = al_hist s"
  "post_keys (snd (alert_post e now key msg u c s)) = post_keys s @ [(now, key)]"
  by (simp_all add: alert_post_def Let_def genSign_def post_keys_def split: post_res.split)

lemma alert_add_fields [simp]:
  "al_hist (alert_add now key s) = (now, key) # al_hist s" "post_keys (alert_add now key s) = post_keys s"
  by (simp_all add: alert_add_def post_keys_def)

text \<open>What was posted is what was added, and earlier calls came earlier.\<close>

definition alert_inv :: "int \<Rightarrow> alert_st \<Rightarrow> bool" where
  "alert_inv now s \<longleftrightarrow> al_hist s = rev (post_keys s) \<and> spaced (post_keys s) \<and>
     (\<forall>p\<in>set (post_keys s). fst p \<le> now)"

lemma alert_call_inv:
  assumes "cache_finds e" and "alert_inv t s" and "t \<le> now" and "length (al_hist s) < 30000"
  shows "alert_inv now (alert_call e (now, key, msg) s)"
proof (cases "alert_valid key msg alert_url alert_secret \<and> \<not> ae_hit e (al_hist s) now key")
  case True
  have "fst p + 30 \<le> now" if "p \<in> set (post_keys s)" "snd p = key" for p
  proof (rule ccontr)
    assume "\<not> fst p + 30 \<le> now"
    have "(fst p, key) \<in> set (al_hist s)" using assms(2) that by (auto simp: alert_inv_def)
    then obtain newer older where h: "al_hist s = newer @ (fst p, key) # older" by (meson split_list)
    have "fst p \<le> now" using assms(2,3) that by (auto simp: alert_inv_def)
    with h \<open>\<not> fst p + 30 \<le> now\<close> assms(1,4) have "ae_hit e (al_hist s) now key"
      unfolding cache_finds_def h by simp
    with True show False by blast
  qed
  with True assms(2,3) show ?thesis
    by (auto simp: alert_call_cases alert_inv_def spaced_def sorted_wrt_append)
next
  case False
  with assms(2,3) show ?thesis by (auto simp: alert_call_cases alert_inv_def)
qed

lemma alert_call_length: "length (al_hist (alert_call e c s)) \<le> Suc (length (al_hist s))"
  by (cases c) (simp add: alert_call_cases)

lemma alert_calls_inv:
  assumes "cache_finds e"
  shows "alert_inv t s \<Longrightarrow> sorted (t # map fst cs) \<Longrightarrow> length (al_hist s) + length cs \<le> 30000 \<Longrightarrow>
    spaced (post_keys (fold (alert_call e) cs s))"
proof (induction cs arbitrary: t s)
  case Nil
  then show ?case by (simp add: alert_inv_def)
next
  case (Cons c cs)
  obtain now key msg where c: "c = (now, key, msg)" by (metis prod_cases3)
  from Cons.prems alert_call_length [of e c s] have "alert_inv now (alert_call e c s)"
    "length (al_hist (alert_call e c s)) + length cs \<le> 30000" "sorted (now # map fst cs)"
    using alert_call_inv [OF assms, of t s now key msg] by (auto simp: c)
  from Cons.IH [OF this(1,3,2)] show ?case by simp
qed

text \<open>C30: the web hook is not flooded: of alerts sent one after the other, up to thirty thousand of
  them, two with the same key are at least thirty seconds apart; and an alert that is worth
  sending and whose key was not added in the last thirty seconds is sent, with its text.\<close>

theorem alert_rate_limit:
  assumes "cache_finds e" and "cache_forgets e" and "sorted (map fst cs)" and "length cs \<le> 30000"
  shows "spaced (post_keys (fold (alert_call e) cs \<lparr>al_hist = [], al_posts = []\<rparr>)) \<and>
    (\<forall>s now key msg. alert_valid key msg alert_url alert_secret \<and> (\<forall>t. (t, key) \<in> set (al_hist s) \<longrightarrow> t + 30 \<le> now) \<longrightarrow>
       post_keys (alert_call e (now, key, msg) s) = post_keys s @ [(now, key)])"
proof
  let ?s = "\<lparr>al_hist = [], al_posts = []\<rparr>"
  show "spaced (post_keys (fold (alert_call e) cs ?s))"
  proof (cases cs)
    case Nil
    then show ?thesis by (simp add: spaced_def post_keys_def)
  next
    case (Cons c cs')
    have "alert_inv (fst c) ?s" by (simp add: alert_inv_def post_keys_def spaced_def)
    moreover have "sorted (fst c # map fst cs)" using assms(3) Cons by auto
    ultimately show ?thesis using alert_calls_inv [OF assms(1)] assms(4) by simp
  qed
  show "\<forall>s now key msg. alert_valid key msg alert_url alert_secret \<and> (\<forall>t. (t, key) \<in> set (al_hist s) \<longrightarrow> t + 30 \<le> now) \<longrightarrow>
       post_keys (alert_call e (now, key, msg) s) = post_keys s @ [(now, key)]"
    using assms(2) by (simp add: alert_call_cases cache_forgets_def)
qed

text \<open>A cache that keeps the promise.\<close>

definition demo_hit :: "(int \<times> string) list \<Rightarrow> int \<Rightarrow> string \<Rightarrow> bool" where
  "demo_hit hist now key \<longleftrightarrow> list_ex (\<lambda>p. snd p = key \<and> now < fst p + 30) hist"

definition demo_alert_env :: alert_env where
  "demo_alert_env = \<lparr>ae_hit = demo_hit, ae_hmac = (\<lambda>_ _. []), ae_post = (\<lambda>_ _. Reply 0 [])\<rparr>"

lemma demo_cache: "cache_finds demo_alert_env" "cache_forgets demo_alert_env"
  by (auto simp: cache_finds_def cache_forgets_def demo_alert_env_def demo_hit_def list_ex_iff)

theorem alert_rate_limit_witness:
  "post_keys (fold (alert_call demo_alert_env) [(5, ''k'', ''a''), (20, ''k'', ''b''), (40, ''k'', ''c'')]
     \<lparr>al_hist = [], al_posts = []\<rparr>) = [(5, ''k''), (40, ''k'')]"
proof -
  let ?s = "\<lparr>al_hist = [], al_posts = []\<rparr>"
  have v: "alert_valid ''k'' ''a'' alert_url alert_secret" "alert_valid ''k'' ''c'' alert_url alert_secret"
    unfolding alert_valid_def alert_url_def alert_secret_def by code_simp+
  note sent = alert_rate_limit [OF demo_cache, of "[]", simplified, THEN conjunct2, rule_format]
  let ?s1 = "alert_call demo_alert_env (5, ''k'', ''a'') ?s"
  have s1: "post_keys ?s1 = [(5, ''k'')]" using sent [of "''k''" "''a''" ?s 5] v by (simp add: post_keys_def)
  have h1: "al_hist ?s1 = [(5, ''k'')]"
    using v by (simp add: alert_call_cases demo_alert_env_def demo_hit_def)
  have s2: "alert_call demo_alert_env (20, ''k'', ''b'') ?s1 = ?s1"
  proof -
    have "ae_hit demo_alert_env (al_hist ?s1) 20 ''k''"
      unfolding h1 by (simp add: demo_alert_env_def demo_hit_def)
    then show ?thesis by (simp add: alert_call_cases [of _ 20])
  qed
  have "post_keys (alert_call demo_alert_env (40, ''k'', ''c'') ?s1) = [(5, ''k''), (40, ''k'')]"
    using sent [of "''k''" "''c''" ?s1 40] v s1 h1 by simp
  with s2 show ?thesis by simp
qed

end
