(* ===== verification/Startup.thy ===== *)
theory Startup
  imports Discovery Alert
begin

text \<open>
  The life of the process: \<open>main\<close> of \<open>src/cmd/gateway/gateway.go\<close> and the listeners that \<open>Run\<close> and
  \<open>Close\<close> of \<open>src/pkg/gateway/gateway.go\<close> open and close, as the sequence of what can be observed.
\<close>

section \<open>What can be observed\<close>

datatype observed =
    OLog string
  | OAlert string                     \<comment> \<open>\<open>utils.AlertAuto\<close>\<close>
  | OAlertPanic string                \<comment> \<open>\<open>utils.AlertPanic\<close>: the alert before the panic\<close>
  | OReport nat                       \<comment> \<open>the metrics reporter is started\<close>
  | OHttpServe string                 \<comment> \<open>a goroutine serves the private interface\<close>
  | OTcpListen string                 \<comment> \<open>the public port is open, connections are accepted\<close>
  | ORegistered redis_log             \<comment> \<open>what the first registration sent\<close>
  | OLoop                             \<comment> \<open>the registration loop is started\<close>
  | OSignal                           \<comment> \<open>an interrupt ended the wait\<close>
  | OGatewayClose

datatype process_end = Exited_normally | Panicked string

text \<open>The flags and their defaults.\<close>

definition flag_defaults :: EntryConfig where
  "flag_defaults =
     \<lparr>en_Discovery = \<lparr>dc_Type = ''redis'', dc_RedisRegisterKey = ''gateway_registered_nodes'',
        dc_RedisAddress = ''127.0.0.1:6379'', dc_RedisPassword = ''12345678''\<rparr>,
      en_NodeInfo = demo_node\<lparr>ni_PublicTcpPort := 18001, ni_PrivateHttpPort := 18081,
        ni_ServiceAPIURL := ''http://127.0.0.1:80''\<rparr>,
      en_Env = []\<rparr>"

text \<open>
  What the world does: the metadata service, the answer to \<open>net.Listen\<close>, Redis, and the
  readings of the first registration.
\<close>

record world =
  wo_web :: "string list \<Rightarrow> string \<Rightarrow> web_res"
  wo_listen :: "string \<Rightarrow> string option"
  wo_exec :: "redis_log \<Rightarrow> redis_client \<Rightarrow> redis_cmd list \<Rightarrow> redis_res"
  wo_beat :: beat

section \<open>Gateway.Run: the listeners\<close>

definition listen_addr :: "u64 \<Rightarrow> string" where
  "listen_addr port = ''0.0.0.0:'' @ dec (unat port)"

definition run_listeners :: "world \<Rightarrow> NodeInfoConfig \<Rightarrow> observed list \<times> string option" where
  "run_listeners w n =
     (let os = [OHttpServe (listen_addr (ni_PrivateHttpPort n))]
      in case wo_listen w (listen_addr (ni_PublicTcpPort n)) of
           Some e \<Rightarrow> (let m = ''public tcp service listen fail: '' @ e in (os @ [OAlertPanic m], Some m))
         | None \<Rightarrow> (os @ [OTcpListen (listen_addr (ni_PublicTcpPort n))], None))"

section \<open>main\<close>

text \<open>A panic runs the deferred calls; \<open>Close\<close> is deferred only once the gateway runs.\<close>

definition main_registered :: "world \<Rightarrow> cfg \<Rightarrow> observed list \<times> process_end" where
  "main_registered w c =
     (case RegisterSelf (wo_exec w) (GetDiscovery c) (GetNodeInfo c) (wo_beat w) of
        (Some e, s, _) \<Rightarrow>
          (let m = ''discovery register fail: '' @ e
           in ([ORegistered (ds_log s), OAlertPanic m, OGatewayClose], Panicked m))
      | (None, s, started) \<Rightarrow>
          ([ORegistered (ds_log s)] @ (if started then [OLoop] else []) @
           [OLog ''discovery register success'', OSignal, OGatewayClose], Exited_normally))"

definition main_running :: "world \<Rightarrow> cfg \<Rightarrow> observed list \<times> process_end" where
  "main_running w c =
     (case run_listeners w (GetNodeInfo c) of
        (os, Some m) \<Rightarrow> (os, Panicked m)
      | (os, None) \<Rightarrow> (case main_registered w c of (os', x) \<Rightarrow> (os @ os', x)))"

definition main_process :: "world \<Rightarrow> build \<Rightarrow> EntryConfig \<Rightarrow> observed list \<times> process_end" where
  "main_process w v flags =
     (case cfg_Init (wo_web w) v \<lparr>cf_Entry = flags, cf_cache = Map.empty, cf_reqs = []\<rparr> of
        (Some e, c) \<Rightarrow> (let m = ''configs init fail: '' @ e in ([OAlertPanic m], Panicked m))
      | (None, c) \<Rightarrow>
          (let strConfigs = cfg_Show c
           in case main_running w c of (os, x) \<Rightarrow>
                ([OLog strConfigs, OAlert strConfigs, OReport 1800] @ os, x)))"

section \<open>Order\<close>

fun is_register :: "observed \<Rightarrow> bool" where
  "is_register (ORegistered l) = True"
| "is_register ob = False"

fun is_listen :: "observed \<Rightarrow> bool" where
  "is_listen (OTcpListen a) = True"
| "is_listen ob = False"

text \<open>\<open>before p q os\<close>: nothing with \<open>q\<close> happens before something with \<open>p\<close> has.\<close>

fun before :: "(observed \<Rightarrow> bool) \<Rightarrow> (observed \<Rightarrow> bool) \<Rightarrow> observed list \<Rightarrow> bool" where
  "before p q [] = True"
| "before p q (ob # os) = (p ob \<or> \<not> q ob \<and> before p q os)"

text \<open>The three ways a process that has its configuration goes.\<close>

lemma main_running_cases:
  assumes "main_running w c = (os, x)"
  obtains (no_port) m where "os = [OHttpServe (listen_addr (ni_PrivateHttpPort (GetNodeInfo c))), OAlertPanic m]"
      "x = Panicked m"
  | (no_registry) l m where "os = [OHttpServe (listen_addr (ni_PrivateHttpPort (GetNodeInfo c))),
        OTcpListen (listen_addr (ni_PublicTcpPort (GetNodeInfo c))), ORegistered l, OAlertPanic m, OGatewayClose]"
      "x = Panicked m" "l = [] \<or> (\<exists>cl. l = [(cl, beat_cmds (GetDiscovery c) (beat_node (wo_beat w) (GetNodeInfo c)))])"
  | (runs) l looping where "os = [OHttpServe (listen_addr (ni_PrivateHttpPort (GetNodeInfo c))),
        OTcpListen (listen_addr (ni_PublicTcpPort (GetNodeInfo c))), ORegistered l] @ looping @
        [OLog ''discovery register success'', OSignal, OGatewayClose]"
      "looping = [] \<or> looping = [OLoop]"
      "x = Exited_normally" "l = [] \<or> (\<exists>cl. l = [(cl, beat_cmds (GetDiscovery c) (beat_node (wo_beat w) (GetNodeInfo c)))])"
proof (cases "wo_listen w (listen_addr (ni_PublicTcpPort (GetNodeInfo c)))")
  case (Some e)
  with assms no_port show thesis by (auto simp: main_running_def run_listeners_def Let_def)
next
  case None
  obtain r s started where g: "RegisterSelf (wo_exec w) (GetDiscovery c) (GetNodeInfo c) (wo_beat w) = (r, s, started)"
    by (metis prod_cases3)
  note l = RegisterSelf_log [OF g]
  show thesis
  proof (cases r)
    case (Some e)
    with None assms g no_registry [OF _ _ l] show thesis
      by (auto simp: main_running_def run_listeners_def main_registered_def Let_def)
  next
    case r: None
    with None assms g runs [OF _ _ _ l, of "if started then [OLoop] else []"] show thesis
      by (auto simp: main_running_def run_listeners_def main_registered_def Let_def split: if_splits)
  qed
qed

lemma cfg_Init_node:
  assumes "cfg_Init web v \<lparr>cf_Entry = flags, cf_cache = Map.empty, cf_reqs = []\<rparr> = (None, c)"
  obtains a b n i where "GetNodeInfo c = set_node v a b n i (en_NodeInfo flags)"
proof -
  have "LoadNodeInfo web v \<lparr>cf_Entry = flags, cf_cache = Map.empty, cf_reqs = []\<rparr> = (None, c)"
    using assms by (auto simp: cfg_Init_def cfg_validate_def split: prod.splits option.splits)
  then show thesis by (rule LoadNodeInfo_entry) (auto simp: GetNodeInfo_def intro: that)
qed

lemma set_node_fields [simp]:
  "ni_ID (set_node v a b n i x) = node_id i x" "ni_PublicTcpPort (set_node v a b n i x) = ni_PublicTcpPort x"
  "ni_ID (beat_node t y) = ni_ID y" "ni_PublicTcpPort (beat_node t y) = ni_PublicTcpPort y"
  by (simp_all add: set_node_def beat_node_def)

lemma announced:
  assumes "l = [] \<or> (\<exists>cl. l = [(cl, beat_cmds d (beat_node b n))])" and "n = set_node v a a' a'' i x"
    and "(cl, HSet key k js # rest) # l' = l"
  shows "\<exists>i n. k = node_id i x \<and> ni_ID n = k \<and> js = node_json n \<and>
    ni_PublicTcpPort n = ni_PublicTcpPort x"
  using assms by (auto simp: beat_cmds_def intro!: exI [of _ i] exI [of _ "beat_node b n"])

text \<open>C20: a node is announced only when it can be reached, and never left behind: in every run of the
  process, whatever the metadata service, the network and Redis do, nothing is written to the
  registry before the public port accepts connections; the gateway is closed exactly when the
  port was opened, as the last thing that happens, also when the registration fails; and what
  is announced first is the port that was opened, under the identifier of the node.\<close>

theorem announced_when_reachable:
  assumes "main_process w v flags = (os, x)"
  shows "before is_listen is_register os \<and>
    (list_ex is_listen os \<longleftrightarrow> OGatewayClose \<in> set os) \<and>
    (OGatewayClose \<in> set os \<longrightarrow> last os = OGatewayClose \<and> count_list os OGatewayClose = 1) \<and>
    (x = Exited_normally \<longrightarrow> OSignal \<in> set os) \<and>
    (\<forall>a l cl key k js rest. OTcpListen a \<in> set os \<and> ORegistered ((cl, HSet key k js # rest) # l) \<in> set os \<longrightarrow>
       a = listen_addr (ni_PublicTcpPort (en_NodeInfo flags)) \<and>
       (\<exists>i n. k = node_id i (en_NodeInfo flags) \<and> ni_ID n = k \<and> js = node_json n \<and>
          ni_PublicTcpPort n = ni_PublicTcpPort (en_NodeInfo flags)))"
proof -
  obtain r c where i: "cfg_Init (wo_web w) v \<lparr>cf_Entry = flags, cf_cache = Map.empty, cf_reqs = []\<rparr> = (r, c)"
    by fastforce
  show ?thesis
  proof (cases r)
    case (Some e)
    with i assms show ?thesis by (auto simp: main_process_def Let_def)
  next
    case None
    with i obtain a a' a'' i' where n: "GetNodeInfo c = set_node v a a' a'' i' (en_NodeInfo flags)"
      by (auto elim: cfg_Init_node)
    obtain os' where r: "main_running w c = (os', x)"
      and os: "os = [OLog (cfg_Show c), OAlert (cfg_Show c), OReport 1800] @ os'"
      using assms i None by (auto simp: main_process_def Let_def split: prod.splits)
    note known = announced [OF _ n]
    from r show ?thesis
    proof (cases rule: main_running_cases)
      case (no_port m)
      with os show ?thesis by auto
    next
      case (no_registry l m)
      with os known [OF no_registry(3)] n show ?thesis by auto
    next
      case (runs l looping)
      with os known [OF runs(4)] n show ?thesis by auto
    qed
  qed
qed

definition demo_world :: world where
  "demo_world = \<lparr>wo_web = (\<lambda>_ _. Body ''i-7''), wo_listen = (\<lambda>_. None), wo_exec = (\<lambda>_ _ _. RErr ''down''),
     wo_beat = demo_beat 3\<rparr>"

lemma demo_world_answers:
  "set us \<subseteq> set metadata_urls \<Longrightarrow> \<exists>xs c'. get_all (wo_web demo_world) us c = (Inr xs, c')"
proof (induction us arbitrary: c)
  case (Cons u us)
  obtain x c1 where "cfg_get (wo_web demo_world) u c = (Inr x, c1)"
    using Cons.prems urls_trimmed [of u]
    by (cases "cf_cache c u") (auto simp: cfg_get_def Let_def demo_world_def)
  with Cons.IH [of c1] Cons.prems show ?case by auto
qed simp

theorem announced_when_reachable_witness:
  "last (fst (main_process demo_world version_default flag_defaults)) = OGatewayClose"
proof -
  let ?c0 = "\<lparr>cf_Entry = flag_defaults, cf_cache = Map.empty, cf_reqs = []\<rparr>"
  obtain os x where m: "main_process demo_world version_default flag_defaults = (os, x)" by fastforce
  obtain xs c1 where "get_all (wo_web demo_world) metadata_urls ?c0 = (Inr xs, c1)"
    using demo_world_answers [OF order_refl] by blast
  then have "fst (cfg_Init (wo_web demo_world) version_default ?c0) = None"
    by (simp add: cfg_Init_def LoadNodeInfo_get_all cfg_validate_def)
  then have "OGatewayClose \<in> set os"
    using m by (auto simp: main_process_def main_running_def run_listeners_def main_registered_def Let_def
        demo_world_def split: prod.splits option.splits)
  with announced_when_reachable [OF m] m show ?thesis by simp
qed

end
