(* ===== verification/Cos.thy ===== *)
theory Cos
  imports Prelude
begin

text \<open>
  Object storage, \<open>src/pkg/cos/cos.go\<close>. The cloud's client library is a parameter: an operation
  gets the client, the deadline of its context, and the state of the bucket. Nothing in the
  repository calls this package.
\<close>

section \<open>The client\<close>

text \<open>A client is what it was opened with; a URL that cannot be parsed is no URL.\<close>

record 'u COS =
  cos_BucketURL :: "'u option"
  cos_SecretID :: string
  cos_SecretKey :: string

definition cos_New :: "(string \<Rightarrow> 'u option) \<Rightarrow> string \<Rightarrow> string \<Rightarrow> string \<Rightarrow> 'u COS" where
  "cos_New parse URL SecretID SecretKey =
     \<lparr>cos_BucketURL = parse URL, cos_SecretID = SecretID, cos_SecretKey = SecretKey\<rparr>"

text \<open>
  The library: an answer is an error or the entity tag of its header, for a download also the
  body, whose reading may fail.
\<close>

record ('u, 's) cos_sdk =
  sdk_Put :: "'u COS \<Rightarrow> int \<Rightarrow> string \<Rightarrow> bytes \<Rightarrow> 's \<Rightarrow> (string + string) \<times> 's"
  sdk_Head :: "'u COS \<Rightarrow> int \<Rightarrow> string \<Rightarrow> 's \<Rightarrow> (string + string) \<times> 's"
  sdk_Get :: "'u COS \<Rightarrow> int \<Rightarrow> string \<Rightarrow> 's \<Rightarrow> (string + (string + bytes) \<times> string) \<times> 's"

section \<open>Put, Head, Get\<close>

text \<open>Every operation has five seconds; the time is in seconds.\<close>

definition cos_Put ::
  "('u, 's) cos_sdk \<Rightarrow> int \<Rightarrow> 'u COS \<Rightarrow> string \<Rightarrow> bytes \<Rightarrow> 's \<Rightarrow> string option \<times> 's"
where
  "cos_Put sdk now c path buf s =
     (let deadline = now + 5
      in case sdk_Put sdk c deadline path buf s of
           (Inl err, s) \<Rightarrow> (Some err, s)
         | (Inr etag, s) \<Rightarrow> (None, s))"

definition cos_Head ::
  "('u, 's) cos_sdk \<Rightarrow> int \<Rightarrow> 'u COS \<Rightarrow> string \<Rightarrow> 's \<Rightarrow> (string + string) \<times> 's"
where
  "cos_Head sdk now c path s =
     (let deadline = now + 5
      in case sdk_Head sdk c deadline path s of
           (Inl err, s) \<Rightarrow> (Inl err, s)
         | (Inr etag, s) \<Rightarrow> (Inr etag, s))"

definition cos_Get ::
  "('u, 's) cos_sdk \<Rightarrow> int \<Rightarrow> 'u COS \<Rightarrow> string \<Rightarrow> 's \<Rightarrow> (string + bytes \<times> string) \<times> 's"
where
  "cos_Get sdk now c path s =
     (let deadline = now + 5
      in case sdk_Get sdk c deadline path s of
           (Inl err, s) \<Rightarrow> (Inl err, s)
         | (Inr (Inl err, etag), s) \<Rightarrow> (Inl err, s)
         | (Inr (Inr buf, etag), s) \<Rightarrow> (Inr (buf, etag), s))"

section \<open>Reading back\<close>

text \<open>
  A bucket: what is stored under a path after a successful upload is what a later download or
  inspection finds, unless it fails; \<open>look\<close> reads the state.
\<close>

definition keeps_objects :: "('u, 's) cos_sdk \<Rightarrow> ('s \<Rightarrow> string \<Rightarrow> (bytes \<times> string) option) \<Rightarrow> bool" where
  "keeps_objects sdk look \<longleftrightarrow>
     (\<forall>c d path buf s etag s'. sdk_Put sdk c d path buf s = (Inr etag, s') \<longrightarrow> look s' path = Some (buf, etag)) \<and>
     (\<forall>c d path s r s'. sdk_Head sdk c d path s = (r, s') \<longrightarrow>
        look s' = look s \<and> (\<forall>etag. r = Inr etag \<longrightarrow> (\<exists>buf. look s path = Some (buf, etag)))) \<and>
     (\<forall>c d path s r s'. sdk_Get sdk c d path s = (r, s') \<longrightarrow>
        look s' = look s \<and> (\<forall>buf etag. r = Inr (Inr buf, etag) \<longrightarrow> look s path = Some (buf, etag)))"

text \<open>
  What was uploaded is what is downloaded afterwards, under the tag that an inspection in
  between reports, when none of the three fails.
\<close>

lemma cos_read_back:
  assumes "keeps_objects sdk look" and "cos_Put sdk t1 c path buf s = (None, s1)"
    and "cos_Head sdk t2 c path s1 = (Inr etag, s2)" and "cos_Get sdk t3 c path s2 = (Inr (buf', etag'), s3)"
  shows "buf' = buf \<and> etag' = etag"
proof -
  obtain etag0 where p: "sdk_Put sdk c (t1 + 5) path buf s = (Inr etag0, s1)"
    using assms(2) by (auto simp: cos_Put_def Let_def split: prod.splits sum.splits)
  have h: "sdk_Head sdk c (t2 + 5) path s1 = (Inr etag, s2)"
    using assms(3) by (auto simp: cos_Head_def Let_def split: prod.splits sum.splits)
  have g: "sdk_Get sdk c (t3 + 5) path s2 = (Inr (Inr buf', etag'), s3)"
    using assms(4) by (auto simp: cos_Get_def Let_def split: prod.splits sum.splits)
  note k = assms(1) [unfolded keeps_objects_def]
  have "look s1 path = Some (buf, etag0)" by (rule k [THEN conjunct1, rule_format, OF p])
  moreover note k [THEN conjunct2, THEN conjunct1, rule_format, OF h]
  moreover note k [THEN conjunct2, THEN conjunct2, rule_format, OF g]
  ultimately show ?thesis by auto
qed

text \<open>A bucket that keeps its objects: a map, with the content's length as the tag.\<close>

definition demo_bucket :: "(unit, string \<Rightarrow> bytes option) cos_sdk" where
  "demo_bucket =
     \<lparr>sdk_Put = (\<lambda>c d path buf s. (Inr (dec (length buf)), s(path := Some buf))),
      sdk_Head = (\<lambda>c d path s. (case s path of None \<Rightarrow> Inl ''404'' | Some b \<Rightarrow> Inr (dec (length b)), s)),
      sdk_Get = (\<lambda>c d path s. (case s path of None \<Rightarrow> Inl ''404'' | Some b \<Rightarrow> Inr (Inr b, dec (length b)), s))\<rparr>"

lemma demo_bucket_keeps:
  "keeps_objects demo_bucket (\<lambda>s path. map_option (\<lambda>b. (b, dec (length b))) (s path))"
  by (auto simp: keeps_objects_def demo_bucket_def split: option.splits)

end
