(* ===== verification/Spec2Isabelle.thy ===== *)
theory Spec2Isabelle
  imports System_Props Encoding_Props Encoding_Round Encoding_Types Encoding_Bounds Encode_State Crc
    Stress Report Startup Cos
begin

text \<open>
  A model of the TCP gateway of this repository, and what is proved about it.

  THE PROGRAM. A gateway node accepts TCP clients. Every client is an agent with three
  goroutines: one reads frames and runs each message through a chain of middlewares, one
  writes what was queued for the client, one waits for the end and cleans up. The chain limits
  the requests of one client that are in flight, starts a goroutine per message, and that
  forwards the message to a backend over HTTP, whose reply is written back to the client. Over a
  private HTTP interface the backend can write to a client, broadcast, and close clients; it is
  told when a client disconnects. The node keeps statistics, reports them, sends alerts to a web
  hook, and lists itself in Redis. Beside the gateway there are a reflective binary
  encoding and a stress client that speaks the gateway's protocol.

  THE THEORIES, and what they model.
  \<^item> \<open>Prelude\<close>: Go's integers as words, panics as values (\<open>'a go\<close>), errors, little-endian integers,
    \<open>TrimSpace\<close>, decimal text, growth of slices (locale \<open>append_policy\<close>), and the locale
    \<open>op_refinement\<close>: operations on a representation simulate operations on what it stands for.
  \<^item> \<open>Conn\<close>, \<open>Hooks\<close>, \<open>Agent_Read\<close>: a connection as a list of segments, \<open>io.ReadFull\<close>,
    \<open>hooks.go\<close>, and \<open>loopRead\<close> of \<open>agent.go\<close>. \<open>parse_stream\<close> is the specification: what the bytes mean
    however they are cut.
  \<^item> \<open>Writer\<close>, \<open>Agent\<close>, \<open>Agent_Write\<close>: \<open>writer.go\<close> (locale \<open>byte_queue\<close>; locale \<open>io_sink\<close> for what
    the flush needs), the agent's state and small operations, and \<open>Write\<close> with \<open>loopWrite\<close> as a
    step relation over buffer, wake-up channel and cancellation.
  \<^item> \<open>Plugins\<close>, \<open>Plugin_Steps\<close>, \<open>Plugin_Props\<close>: \<open>interfaces.go\<close> \<open>Use\<close>, the middlewares of
    \<open>plugins.go\<close>, \<open>ForwadHttp\<close>; the request goroutines step by step, and that the steps compose to
    the middlewares. \<open>Base64\<close> is the codec of the bodies.
  \<^item> \<open>Registry\<close>, \<open>Http_Api\<close>: the table of agents of \<open>gateway.go\<close> (locale \<open>agent_table\<close>, a
    refinement of finite maps), and its HTTP operations with the middlewares of \<open>middlewares.go\<close>;
    a handler answers and leaves a list of actions that are interleaved with everything else.
  \<^item> \<open>P99\<close>, \<open>Metric\<close>, \<open>Metric_Props\<close>, \<open>Report\<close>: \<open>metric.go\<close>, from one histogram to the goroutine that
    reports.
  \<^item> \<open>System\<close>, \<open>System_Steps\<close>, \<open>System_Inv\<close>, \<open>System_Trace\<close>, \<open>System_Props\<close>: the whole process:
    accept loop, all agents with all their goroutines, finalizers, HTTP handlers, collection,
    \<open>Close\<close>, as one step relation \<open>sys_step\<close>; its runs \<open>sys_run\<close> record events.
  \<^item> \<open>Encoding\<close>: \<open>types.go\<close>, \<open>encode.go\<close>, \<open>decode.go\<close> over a heap of objects and arrays, with
    aliasing. \<open>Encode_State\<close>: the encoder as it runs, with buffer, pointer set, deferred functions
    and pool; the recursive \<open>encode\<close> is its specification. \<open>Crc\<close>: \<open>crc.go\<close>.
  \<^item> \<open>Config\<close>, \<open>Discovery\<close>, \<open>Alert\<close>, \<open>Startup\<close>: \<open>configs.go\<close> and \<open>version.go\<close>, \<open>discovery.go\<close>,
    \<open>feishu.go\<close> with \<open>utils.go\<close>, and \<open>main\<close> of \<open>cmd/gateway\<close> with the listeners of \<open>gateway.go\<close>.
  \<^item> \<open>Stress\<close>: \<open>cmd/stress\<close>. \<open>Cos\<close>: \<open>cos.go\<close>.

  Names follow the sources; a definition whose name would clash has the component as prefix
  (\<open>writer_Write\<close>, \<open>agent_Close\<close>, \<open>cfg_Init\<close>). Records keep the fields of the structs. Mutexes and atomics
  have no counterpart: what they protect is one step. Where the code makes two atomic calls
  in a row (the sequence number, the alert cache) they are two steps.

  WHAT IS SHOWN.
  \<^item> Framing: messages written are the messages processed, in order, independent of
    segmentation; only valid ones are processed; errors end the loop as they should (\<open>Agent_Read\<close>).
  \<^item> Writing: what is sent is a prefix of the accepted messages in order in every interleaving,
    and all of it if the wake-ups are not dropped (\<open>Agent_Write\<close>; \<open>write_lost_wakeup\<close> is a run
    in which one is dropped and a message stays).
  \<^item> Requests: numbering, content, reply, and the bound on requests in flight (\<open>Plugin_Props\<close>,
    \<open>System_Props\<close>).
  \<^item> The process: the connection counter, the table, the order of the finalizer's steps, no
    notification for a client that was kicked out, cleanliness after the end, shutdown (\<open>System_Inv\<close>,
    \<open>System_Trace\<close>, \<open>System_Props\<close>).
  \<^item> Statistics: exact percentiles, collection, no panic in any reachable state, the reporter
    (\<open>Metric_Props\<close>, \<open>Report\<close>).
  \<^item> Encoding: round trip for values whose slices have flat elements (\<open>Encoding_Round\<close>), no panic
    for registered types without the parts that registration overlooks (\<open>Encoding_Types\<close>),
    reading within bounds (\<open>Encoding_Bounds\<close>), the pool (\<open>Encode_State\<close>), and what does not hold:
    shared elements, types that are accepted but panic, cycles through slices (\<open>Encoding_Props\<close>).
  \<^item> Around the gateway: loading the configuration once, all or nothing; the updates of the
    registry and how long they keep the node listed; the rate limit on alerts; a node is
    announced only when it is reachable (\<open>Config\<close>, \<open>Discovery\<close>, \<open>Alert\<close>, \<open>Startup\<close>).
  \<^item> The stress client against the gateway's own read loop, and its counters (\<open>Stress\<close>).

  FUEL. Only the encoding needs it: the recursion follows a heap that may be cyclic, so
  \<open>encode\<close>, \<open>decode\<close>, \<open>zero\<close> and the check of types take a depth, and running out of it is an
  outcome of its own (\<open>EDeep\<close>, \<open>DDeep\<close>, \<open>CheckLoop\<close>), never an error or a value. The round trip
  shows that enough fuel exists and that any more gives the same result;
  \<open>slice_cycle_diverges\<close> shows a value for which no fuel is enough, while a cycle of pointers is
  found once more than 100 levels have been entered (\<open>startDetectingCyclesAfter\<close>). All other loops
  are structural or have a termination proof.

  PARAMETERS. The backend, the HTTP client and gin's binding of requests; the metadata service;
  Redis; the cache library, HMAC-SHA256 and the web hook; the cloud's storage library; the
  growth of \<open>append\<close>; readings of the runtime, clock and random numbers. What is assumed of them
  is a hypothesis of the theorem that needs it, named (\<open>cache_finds\<close>, \<open>cache_forgets\<close>,
  \<open>always_built\<close>, \<open>keeps_objects\<close>), with an instance that satisfies it.

  NOT MODELLED. Time spent sleeping and deadlines of connections, except where a property is about
  them; what is logged; the text of stack traces and of durations; the failure of the private
  HTTP server's own goroutine; panics inside third-party libraries; \<open>CheckRegisterTypeInterface\<close>, which
  only asks \<open>reflect\<close> for a type; identifiers that are not ASCII; names of types inside error texts of
  the encoding; data races on the agent's \<open>disable\<close> flag beyond the interleaving of its reads and
  writes; tests.
\<close>

end
